(* ===== verification/Prelude.thy ===== *)
theory Prelude
  imports Main "HOL-Library.Word"
begin

text \<open>
  Shared vocabulary of the development: the integer type of R vector lengths, the
  handles and type tags of R objects, the tokens of cpp11's preserve list, the errors a
  call into the vector layer can end with, and the list lemmas that the component
  theories share. The fact collections declared here gather the evaluation rules of the
  R C API (\<open>rt_simps\<close>) and of the vector operations (\<open>vec_simps\<close>) so that the
  component proofs can say \<open>simp add: rt_simps\<close>.
\<close>

named_theorems rt_simps "evaluation rules of the modelled R C API"
named_theorems vec_simps "evaluation rules of the cpp11 vector operations"

section \<open>Machine integers\<close>

text \<open>
  \<open>R_xlen_t\<close> is \<open>ptrdiff_t\<close>, a signed 64-bit integer. It is modelled as \<open>int\<close>;
  where a claim depends on overflow, the bound \<open>PTRDIFF_MAX\<close> is stated explicitly.
  \<open>R_XLEN_T_MAX\<close> is R's largest vector length (\<open>2^52\<close>).
\<close>

type_synonym r_xlen_t = int

definition PTRDIFF_MAX :: int where
  "PTRDIFF_MAX = 2 ^ 63 - 1"

definition R_XLEN_T_MAX :: int where
  "R_XLEN_T_MAX = 2 ^ 52"

section \<open>R objects: handles, type tags, preserve-list cells\<close>

text \<open>An \<open>SEXP\<close> is \<open>R_NilValue\<close> or the address of a heap object.\<close>

datatype sexp = R_NilValue | Addr nat

text \<open>The \<open>SEXPTYPE\<close> tags the vector layer distinguishes.\<close>

datatype sexptype = NILSXP | LGLSXP | INTSXP | REALSXP | STRSXP | VECSXP

text \<open>
  The value \<open>protect_sexp\<close> returns: \<open>R_NilValue\<close> for a nil argument, otherwise
  the cell it inserted into cpp11's preserve list.
\<close>

datatype token = NoToken | Cell nat

section \<open>Errors\<close>

text \<open>
  How a call can end other than by returning:
  \<^item> \<open>TypeError expected actual\<close>: \<open>cpp11::type_error\<close>;
  \<^item> \<open>OutOfRange what\<close>: \<open>std::out_of_range\<close>;
  \<^item> \<open>UnwindException\<close>: \<open>cpp11::unwind_exception\<close>, an R error caught by
    \<open>unwind_protect\<close> or \<open>safe[]\<close> and rethrown as a C++ exception;
  \<^item> \<open>RError\<close>: an R error raised by a call that is not wrapped, which longjmps
    through the C++ frames without running any handler;
  \<^item> \<open>Undefined\<close>: undefined behaviour (a null or dangling pointer, an index outside
    the buffer). It is not an exception of the program; the model records it so that
    theorems can state that it does not happen.
\<close>

datatype error =
    TypeError sexptype sexptype
  | OutOfRange string
  | UnwindException
  | RError
  | Undefined

text \<open>A computation over a state \<open>'s\<close> that returns \<open>'a\<close> or throws; the state it
  leaves behind is kept in both cases, as C++ keeps the side effects made before a throw.\<close>

type_synonym ('s, 'a) exn = "'s \<Rightarrow> (error + 'a) \<times> 's"

section \<open>List helpers\<close>

text \<open>
  \<open>resize xs n pad\<close> is the contents of a vector of length \<open>n\<close> copied from
  \<open>xs\<close>: truncated, or padded with \<open>pad\<close>.
\<close>

definition resize :: "'a list \<Rightarrow> nat \<Rightarrow> 'a \<Rightarrow> 'a list" where
  "resize xs n pad = take n xs @ replicate (n - length xs) pad"

lemma length_resize [simp]: "length (resize xs n pad) = n"
  by (simp add: resize_def)

lemma nth_resize [simp]: "i < length xs \<Longrightarrow> i < n \<Longrightarrow> resize xs n pad ! i = xs ! i"
  by (simp add: resize_def nth_append)

lemma take_resize [simp]: "m \<le> length xs \<Longrightarrow> m \<le> n \<Longrightarrow> take m (resize xs n pad) = take m xs"
  by (simp add: resize_def)

lemma take_update_last:
  "m < length xs \<Longrightarrow> take (Suc m) (xs[m := x]) = take m xs @ [x]"
  by (simp add: take_Suc_conv_app_nth)

lemma take_update_beyond [simp]: "m \<le> i \<Longrightarrow> take m (xs[i := x]) = take m xs"
  by simp

lemma take_Suc_drop:
  "k < length xs \<Longrightarrow> take (Suc m) (drop k xs) = xs ! k # take m (drop (Suc k) xs)"
  by (simp add: Cons_nth_drop_Suc [symmetric])

lemma take_drop_append:
  "take a (drop q xs) @ take b (drop (q + a) xs) = take (a + b) (drop q xs)"
  by (simp add: take_add add.commute)

lemma nat_int_less_iff: "0 \<le> i \<Longrightarrow> (i < int n) = (nat i < n)"
  by arith

lemma filter_fst_neq_fresh:
  "\<forall>(c', y) \<in> set ps. c' \<noteq> c \<Longrightarrow> filter (\<lambda>(c', y). c' \<noteq> c) ps = ps"
  by (induction ps) auto

end
