(* ===== verification/Runtime.thy ===== *)
theory Runtime
  imports Prelude
begin

text \<open>
  The host runtime the vector layer calls: R's heap of vector objects, its allocator
  and resize primitive, element get/set by index and by block, the buffer pointer of a
  materialised vector, attributes, cpp11's preserve list (\<open>protect_sexp\<close> and
  \<open>release_protect\<close> of cpp11/protect.hpp), \<open>unwind_protect\<close>, and the garbage
  collector. None of this code is under src/: each definition follows the R C API
  and the collaborator contract of the specification (section 6). The heap is typed by
  the element type \<open>'e\<close> of the vectors under study; a names attribute is kept inline
  in its object as a list of strings.
\<close>

section \<open>Objects and the runtime state\<close>

record 'e robj =
  otype :: sexptype
  alt :: bool
  elts :: "'e list"
  names :: "string list option"

text \<open>
  \<open>preserved\<close> is cpp11's preserve list: one (cell, handle) pair per
  \<open>protect_sexp\<close> call not yet released. \<open>mem_avail\<close> is the number of
  elements the allocator can still hand out; an allocation beyond it is R's
  "cannot allocate vector" error. \<open>region_calls\<close> counts the block reads
  (\<open>*_GET_REGION\<close>) issued, as a counting mock of the runtime would.
  \<open>region_errors\<close> holds the addresses of ALTREP objects whose \<open>Get_region\<close>
  method raises an R error (an ALTREP class is user code and may fail), and
  \<open>elt_errors\<close> those whose \<open>Elt\<close> and \<open>Set_elt\<close> methods do.
\<close>

record 'e rstate =
  heap :: "nat \<rightharpoonup> 'e robj"
  next_addr :: nat
  preserved :: "(nat \<times> sexp) list"
  next_cell :: nat
  mem_avail :: nat
  region_calls :: nat
  region_errors :: "nat set"
  elt_errors :: "nat set"

text \<open>Addresses and cells are fresh above their counters.\<close>

definition rt_wf :: "'e rstate \<Rightarrow> bool" where
  "rt_wf w \<longleftrightarrow> (\<forall>a. next_addr w \<le> a \<longrightarrow> heap w a = None) \<and>
     (\<forall>(c, x) \<in> set (preserved w). c < next_cell w)"

section \<open>Reading objects\<close>

definition deref :: "sexp \<Rightarrow> 'e rstate \<Rightarrow> error + 'e robj" where
  "deref x w = (case x of
      R_NilValue \<Rightarrow> Inl Undefined
    | Addr a \<Rightarrow> (case heap w a of None \<Rightarrow> Inl Undefined | Some ob \<Rightarrow> Inr ob))"

definition TYPEOF :: "sexp \<Rightarrow> 'e rstate \<Rightarrow> error + sexptype" where
  "TYPEOF x w = (if x = R_NilValue then Inr NILSXP else map_sum id otype (deref x w))"

definition ALTREP :: "sexp \<Rightarrow> 'e rstate \<Rightarrow> error + bool" where
  "ALTREP x w = (if x = R_NilValue then Inr False else map_sum id alt (deref x w))"

definition Rf_xlength :: "sexp \<Rightarrow> 'e rstate \<Rightarrow> error + r_xlen_t" where
  "Rf_xlength x w =
     (if x = R_NilValue then Inr 0 else map_sum id (\<lambda>ob. int (length (elts ob))) (deref x w))"

text \<open>The slot \<open>i\<close> of an object's storage; an index outside the object is undefined
  behaviour.\<close>

definition buf_get :: "sexp \<Rightarrow> r_xlen_t \<Rightarrow> 'e rstate \<Rightarrow> error + 'e" where
  "buf_get x i w = (case deref x w of
      Inl e \<Rightarrow> Inl e
    | Inr ob \<Rightarrow> if 0 \<le> i \<and> i < int (length (elts ob)) then Inr (elts ob ! nat i) else Inl Undefined)"

definition elt_fails :: "sexp \<Rightarrow> 'e rstate \<Rightarrow> bool" where
  "elt_fails x w = (case x of R_NilValue \<Rightarrow> False | Addr a \<Rightarrow> a \<in> elt_errors w)"

text \<open>\<open>REAL_ELT\<close>, \<open>LOGICAL_ELT\<close> (R's Rinlinedfuns.h): an ALTREP object answers
  through its class's \<open>Elt\<close> method, which may raise an R error; any other object
  is read in its buffer.\<close>

definition get_elt :: "sexp \<Rightarrow> r_xlen_t \<Rightarrow> 'e rstate \<Rightarrow> error + 'e" where
  "get_elt x i w = (case deref x w of
      Inl e \<Rightarrow> Inl e
    | Inr ob \<Rightarrow> if alt ob \<and> elt_fails x w then Inl RError else buf_get x i w)"

text \<open>\<open>REAL(x)\<close>, \<open>LOGICAL(x)\<close>: the buffer pointer, modelled as the handle whose
  buffer it addresses; R signals an error when the object has another type.\<close>

definition DATAPTR :: "sexptype \<Rightarrow> sexp \<Rightarrow> 'e rstate \<Rightarrow> error + sexp option" where
  "DATAPTR t x w = (case TYPEOF x w of
      Inl e \<Rightarrow> Inl e
    | Inr t' \<Rightarrow> if t' = t then Inr (Some x) else Inl RError)"

text \<open>A raw \<open>T*\<close> into a buffer: \<open>None\<close> is \<open>nullptr\<close>. \<open>p[i]\<close> reads the
  buffer directly.\<close>

definition ptr_read :: "sexp option \<Rightarrow> r_xlen_t \<Rightarrow> 'e rstate \<Rightarrow> error + 'e" where
  "ptr_read p i w = (case p of None \<Rightarrow> Inl Undefined | Some x \<Rightarrow> buf_get x i w)"

section \<open>Writing objects\<close>

definition put_obj :: "sexp \<Rightarrow> 'e robj \<Rightarrow> 'e rstate \<Rightarrow> 'e rstate" where
  "put_obj x ob w = (case x of R_NilValue \<Rightarrow> w | Addr a \<Rightarrow> w\<lparr>heap := (heap w)(a \<mapsto> ob)\<rparr>)"

text \<open>A write to slot \<open>i\<close> of an object's storage.\<close>

definition buf_set :: "sexp \<Rightarrow> r_xlen_t \<Rightarrow> 'e \<Rightarrow> 'e rstate \<Rightarrow> error + 'e rstate" where
  "buf_set x i v w = (case deref x w of
      Inl e \<Rightarrow> Inl e
    | Inr ob \<Rightarrow> if 0 \<le> i \<and> i < int (length (elts ob))
               then Inr (put_obj x (ob\<lparr>elts := (elts ob)[nat i := v]\<rparr>) w) else Inl Undefined)"

text \<open>\<open>SET_REAL_ELT\<close>, \<open>SET_LOGICAL_ELT\<close>: through the \<open>Set_elt\<close> method of an
  ALTREP object, which may raise an R error, else in the buffer.\<close>

definition set_elt :: "sexp \<Rightarrow> r_xlen_t \<Rightarrow> 'e \<Rightarrow> 'e rstate \<Rightarrow> error + 'e rstate" where
  "set_elt x i v w = (case deref x w of
      Inl e \<Rightarrow> Inl e
    | Inr ob \<Rightarrow> if alt ob \<and> elt_fails x w then Inl RError else buf_set x i v w)"

text \<open>\<open>p[i] = v\<close> through a raw pointer.\<close>

definition ptr_write :: "sexp option \<Rightarrow> r_xlen_t \<Rightarrow> 'e \<Rightarrow> 'e rstate \<Rightarrow> error + 'e rstate" where
  "ptr_write p i v w = (case p of None \<Rightarrow> Inl Undefined | Some x \<Rightarrow> buf_set x i v w)"

section \<open>Allocation and resizing\<close>

text \<open>
  \<open>Rf_allocVector(t, n)\<close>. R leaves the slots of a numeric or logical vector
  uninitialised; the model fills them with \<open>fill\<close>, a value the caller names. A
  negative length or a request beyond the available memory is an R error.
\<close>

definition Rf_allocVector :: "sexptype \<Rightarrow> r_xlen_t \<Rightarrow> 'e \<Rightarrow> ('e rstate, sexp) exn" where
  "Rf_allocVector t n fill w =
     (if n < 0 \<or> int (mem_avail w) < n then (Inl RError, w)
      else (Inr (Addr (next_addr w)),
            w\<lparr>heap := (heap w)(next_addr w \<mapsto>
                 \<lparr>otype = t, alt = False, elts = replicate (nat n) fill, names = None\<rparr>),
              next_addr := Suc (next_addr w),
              mem_avail := mem_avail w - nat n\<rparr>))"

text \<open>
  \<open>Rf_xlengthgets(x, n)\<close> (R's builtin.c): a negative length is an R error; nil grows
  into a fresh logical vector;
  an object of length \<open>n\<close> is returned unchanged; otherwise a fresh object of the same
  type receives the first \<open>n\<close> elements, padded with \<open>NA\<close>, and the names padded
  with the empty string.
\<close>

definition Rf_xlengthgets :: "sexp \<Rightarrow> r_xlen_t \<Rightarrow> 'e \<Rightarrow> ('e rstate, sexp) exn" where
  "Rf_xlengthgets x n na w =
     (if x = R_NilValue then
        (if n < 0 then (Inl RError, w)
         else if 0 < n then Rf_allocVector LGLSXP n na w else (Inr R_NilValue, w))
      else case deref x w of
        Inl e \<Rightarrow> (Inl e, w)
      | Inr ob \<Rightarrow>
          if n < 0 then (Inl RError, w)
          else if int (length (elts ob)) = n then (Inr x, w)
          else (case Rf_allocVector (otype ob) n na w of
                  (Inl e, w') \<Rightarrow> (Inl e, w')
                | (Inr y, w') \<Rightarrow>
                    (Inr y, put_obj y \<lparr>otype = otype ob, alt = False,
                                       elts = resize (elts ob) (nat n) na,
                                       names = map_option (\<lambda>ns. resize ns (nat n) []) (names ob)\<rparr> w')))"

section \<open>Attributes\<close>

text \<open>\<open>Rf_setAttrib(x, R_NamesSymbol, Rf_allocVector(STRSXP, n))\<close>: the fresh
  character vector counts against the available memory.\<close>

definition set_names_attr :: "sexp \<Rightarrow> r_xlen_t \<Rightarrow> ('e rstate, unit) exn" where
  "set_names_attr x n w =
     (if n < 0 \<or> int (mem_avail w) < n then (Inl RError, w)
      else case deref x w of
        Inl e \<Rightarrow> (Inl e, w)
      | Inr ob \<Rightarrow> (Inr (), put_obj x (ob\<lparr>names := Some (replicate (nat n) [])\<rparr>)
                              (w\<lparr>mem_avail := mem_avail w - nat n\<rparr>)))"

text \<open>\<open>SET_STRING_ELT(names, i, Rf_mkCharCE(s, CE_UTF8))\<close> on the names of \<open>x\<close>.\<close>

definition set_name_elt :: "sexp \<Rightarrow> r_xlen_t \<Rightarrow> string \<Rightarrow> 'e rstate \<Rightarrow> error + 'e rstate" where
  "set_name_elt x i s w = (case deref x w of
      Inl e \<Rightarrow> Inl e
    | Inr ob \<Rightarrow> (case names ob of
        None \<Rightarrow> Inl Undefined
      | Some ns \<Rightarrow> if 0 \<le> i \<and> i < int (length ns)
                   then Inr (put_obj x (ob\<lparr>names := Some (ns[nat i := s])\<rparr>) w)
                   else Inl Undefined))"

section \<open>Block reads\<close>

text \<open>
  \<open>REAL_GET_REGION(x, i, n, buf)\<close>: copies \<open>min(n, length - i)\<close> elements
  starting at \<open>i\<close> in one call; the result is the block copied. On an ALTREP object
  whose class method fails, the call is issued and raises an R error.
\<close>

definition region_fails :: "sexp \<Rightarrow> 'e rstate \<Rightarrow> bool" where
  "region_fails x w = (case x of R_NilValue \<Rightarrow> False | Addr a \<Rightarrow> a \<in> region_errors w)"

definition GET_REGION :: "sexp \<Rightarrow> r_xlen_t \<Rightarrow> r_xlen_t \<Rightarrow> ('e rstate, 'e list) exn" where
  "GET_REGION x i n w = (case deref x w of
      Inl e \<Rightarrow> (Inl e, w)
    | Inr ob \<Rightarrow>
        if i < 0 then (Inl Undefined, w)
        else if alt ob \<and> region_fails x w then (Inl RError, w\<lparr>region_calls := Suc (region_calls w)\<rparr>)
        else (Inr (take (nat (min n (int (length (elts ob)) - i))) (drop (nat i) (elts ob))),
              w\<lparr>region_calls := Suc (region_calls w)\<rparr>))"

section \<open>Protection: cpp11's preserve list\<close>

definition protect_sexp :: "sexp \<Rightarrow> 'e rstate \<Rightarrow> token \<times> 'e rstate" where
  "protect_sexp x w =
     (if x = R_NilValue then (NoToken, w)
      else (Cell (next_cell w),
            w\<lparr>preserved := (next_cell w, x) # preserved w, next_cell := Suc (next_cell w)\<rparr>))"

definition release_protect :: "token \<Rightarrow> 'e rstate \<Rightarrow> 'e rstate" where
  "release_protect t w = (case t of
      NoToken \<Rightarrow> w
    | Cell c \<Rightarrow> w\<lparr>preserved := filter (\<lambda>(c', x). c' \<noteq> c) (preserved w)\<rparr>)"

text \<open>The number of preserve-list cells that keep \<open>x\<close> alive.\<close>

definition protect_count :: "sexp \<Rightarrow> 'e rstate \<Rightarrow> nat" where
  "protect_count x w = length (filter (\<lambda>(c, y). y = x) (preserved w))"

section \<open>Unwind protection\<close>

text \<open>
  \<open>unwind_protect(code)\<close> runs \<open>code\<close> under \<open>R_UnwindProtect\<close>: an R error
  raised inside becomes a C++ \<open>unwind_exception\<close>. C++ exceptions thrown inside
  pass through unchanged. \<open>safe[f](args)\<close> is \<open>unwind_protect\<close> around one call.
\<close>

definition unwind_protect :: "('s, 'a) exn \<Rightarrow> ('s, 'a) exn" where
  "unwind_protect m s = (case m s of
      (Inl RError, s') \<Rightarrow> (Inl UnwindException, s')
    | r \<Rightarrow> r)"

abbreviation safe :: "('s, 'a) exn \<Rightarrow> ('s, 'a) exn" where
  "safe \<equiv> unwind_protect"

section \<open>Garbage collection\<close>

text \<open>
  A collection frees every object that is neither in the preserve list nor in
  \<open>roots\<close> (the handles the C stack protects at that moment).
\<close>

definition R_gc :: "sexp list \<Rightarrow> 'e rstate \<Rightarrow> 'e rstate" where
  "R_gc roots w = w\<lparr>heap := (\<lambda>a. if Addr a \<in> set roots \<or> Addr a \<in> snd ` set (preserved w)
                                   then heap w a else None)\<rparr>"

declare deref_def [rt_simps] TYPEOF_def [rt_simps] ALTREP_def [rt_simps] Rf_xlength_def [rt_simps]
  get_elt_def [rt_simps] buf_get_def [rt_simps] buf_set_def [rt_simps] elt_fails_def [rt_simps]
  DATAPTR_def [rt_simps] ptr_read_def [rt_simps] put_obj_def [rt_simps]
  set_elt_def [rt_simps] ptr_write_def [rt_simps] protect_sexp_def [rt_simps]
  release_protect_def [rt_simps] unwind_protect_def [rt_simps]

lemma put_obj_twice [simp]: "put_obj x ob (put_obj x ob' w) = put_obj x ob w"
  by (simp add: put_obj_def split: sexp.split)

lemma heap_put_obj_same [simp]: "heap (put_obj (Addr a) ob w) a = Some ob"
  by (simp add: put_obj_def)

lemma preserved_put_obj [simp]: "preserved (put_obj y ob w) = preserved w"
  by (simp add: put_obj_def split: sexp.split)

lemma elt_errors_put_obj [simp]: "elt_errors (put_obj y ob w) = elt_errors w"
  by (simp add: put_obj_def split: sexp.split)

lemma elt_fails_put_obj [simp]: "elt_fails x (put_obj y ob w) = elt_fails x w"
  by (simp add: elt_fails_def put_obj_def split: sexp.split)

lemma deref_put_obj_other [simp]: "y \<noteq> x \<Longrightarrow> deref y (put_obj x ob w) = deref y w"
  by (auto simp: deref_def put_obj_def split: sexp.splits)

end
