(* ===== verification/Vector.thy ===== *)
theory Vector
  imports Runtime
begin

text \<open>
  The typed vector of cpp11 (\<open>cpp11::vector<T>\<close> and \<open>cpp11::writable::vector<T>\<close>)
  as the specialisation for doubles writes it in src/inst/include/cpp11/doubles.hpp. The
  template is generic in the element kind: the record \<open>kind\<close> carries what a
  specialisation fixes (the \<open>SEXPTYPE\<close>, the name in its \<open>out_of_range\<close>
  message, its \<open>NA\<close>), and the logicals specialisation (Logicals.thy) instantiates the
  same definitions. The members of the read-only vector are the record \<open>rvector\<close>;
  the writable vector extends it by \<open>capacity_\<close>, as the C++ class derives from it.
\<close>

section \<open>Element kinds, vectors, proxies\<close>

record 'e kind =
  ktype :: sexptype
  kname :: string
  na :: 'e

text \<open>\<open>data_\<close>, \<open>protect_\<close>, \<open>is_altrep_\<close>, \<open>data_p_\<close> (\<open>None\<close> is
  \<open>nullptr\<close>) and \<open>length_\<close> of \<open>cpp11::vector<T>\<close>.\<close>

record rvector =
  r_data :: sexp
  r_protect :: token
  r_is_altrep :: bool
  r_data_p :: "sexp option"
  r_length :: r_xlen_t

record wvector = rvector +
  w_capacity :: r_xlen_t

type_synonym 'e vstate = "wvector \<times> 'e rstate"

definition to_writable :: "rvector \<Rightarrow> r_xlen_t \<Rightarrow> wvector" where
  "to_writable rv cap = rvector.extend rv (wvector.fields cap)"

text \<open>The proxy of \<open>writable::vector<T>::operator[]\<close>: the handle, the index, the
  slot pointer \<open>p_\<close> (the buffer it points into; \<open>None\<close> is \<open>nullptr\<close>) and the
  representation flag.\<close>

record proxy =
  px_data :: sexp
  px_index :: r_xlen_t
  px_p :: "sexp option"
  px_is_altrep :: bool

record named_arg =
  arg_name :: string
  arg_value :: sexp

section \<open>Construction and the read path\<close>

definition valid_type :: "'e kind \<Rightarrow> sexp \<Rightarrow> 'e rstate \<Rightarrow> error + sexp" where
  "valid_type k data w = (case TYPEOF data w of
      Inl e \<Rightarrow> Inl e
    | Inr t \<Rightarrow> if t \<noteq> ktype k then Inl (TypeError (ktype k) t) else Inr data)"

definition get_p :: "'e kind \<Rightarrow> bool \<Rightarrow> sexp \<Rightarrow> 'e rstate \<Rightarrow> error + sexp option" where
  "get_p k is_altrep data w = (if is_altrep then Inr None else DATAPTR (ktype k) data w)"

text \<open>
  \<open>vector(SEXP data)\<close> of cpp11/vector.hpp, which is not among the sources: its
  member initialisers as the specification describes them. The read-only vector
  registers no protection (\<open>protect_ = R_NilValue\<close>); the writable constructors
  register it themselves.
\<close>

definition rvector_ctor :: "'e kind \<Rightarrow> sexp \<Rightarrow> 'e rstate \<Rightarrow> error + rvector" where
  "rvector_ctor k data w = (case valid_type k data w of
      Inl e \<Rightarrow> Inl e
    | Inr d \<Rightarrow> (case ALTREP d w of
        Inl e \<Rightarrow> Inl e
      | Inr a \<Rightarrow> (case get_p k a d w of
          Inl e \<Rightarrow> Inl e
        | Inr p \<Rightarrow> (case Rf_xlength d w of
            Inl e \<Rightarrow> Inl e
          | Inr n \<Rightarrow> Inr \<lparr>r_data = d, r_protect = NoToken, r_is_altrep = a,
                           r_data_p = p, r_length = n\<rparr>))))"

text \<open>\<open>operator[]\<close>: unchecked.\<close>

definition subscript :: "'a rvector_scheme \<Rightarrow> r_xlen_t \<Rightarrow> 'e rstate \<Rightarrow> error + 'e" where
  "subscript v pos w =
     (if r_is_altrep v then get_elt (r_data v) pos w else ptr_read (r_data_p v) pos w)"

text \<open>\<open>at\<close>: checked.\<close>

definition at :: "'e kind \<Rightarrow> 'a rvector_scheme \<Rightarrow> r_xlen_t \<Rightarrow> 'e rstate \<Rightarrow> error + 'e" where
  "at k v pos w =
     (if pos < 0 \<or> pos \<ge> r_length v then Inl (OutOfRange (kname k))
      else if r_is_altrep v then get_elt (r_data v) pos w else ptr_read (r_data_p v) pos w)"

section \<open>Proxies of the writable vector\<close>

text \<open>\<open>writable::vector<T>::operator[]\<close> (vector.hpp, not among the sources).\<close>

definition w_subscript :: "wvector \<Rightarrow> r_xlen_t \<Rightarrow> proxy" where
  "w_subscript v pos =
     (if r_is_altrep v
      then \<lparr>px_data = r_data v, px_index = pos, px_p = None, px_is_altrep = True\<rparr>
      else \<lparr>px_data = r_data v, px_index = pos, px_p = r_data_p v, px_is_altrep = False\<rparr>)"

definition proxy_assign :: "proxy \<Rightarrow> 'e \<Rightarrow> 'e rstate \<Rightarrow> error + 'e rstate" where
  "proxy_assign px rhs w =
     (if px_is_altrep px then set_elt (px_data px) (px_index px) rhs w
      else ptr_write (px_p px) (px_index px) rhs w)"

definition proxy_get :: "proxy \<Rightarrow> 'e rstate \<Rightarrow> error + 'e" where
  "proxy_get px w =
     (if px_p px = None then get_elt (px_data px) (px_index px) w
      else ptr_read (px_p px) (px_index px) w)"

section \<open>Writable constructors\<close>

text \<open>\<open>as_sexp(std::initializer_list<T>)\<close> of cpp11/as.hpp (not among the sources):
  a fresh vector of the list's length holding its values.\<close>

definition as_sexp :: "'e kind \<Rightarrow> 'e list \<Rightarrow> ('e rstate, sexp) exn" where
  "as_sexp k xs w = (case safe (Rf_allocVector (ktype k) (int (length xs)) (na k)) w of
      (Inl e, w') \<Rightarrow> (Inl e, w')
    | (Inr d, w') \<Rightarrow> (case deref d w' of
        Inl e \<Rightarrow> (Inl e, w')
      | Inr ob \<Rightarrow> (Inr d, put_obj d (ob\<lparr>elts := xs\<rparr>) w')))"

text \<open>\<open>writable::vector(std::initializer_list<double>)\<close>.\<close>

definition il_ctor :: "'e kind \<Rightarrow> 'e list \<Rightarrow> ('e rstate, wvector) exn" where
  "il_ctor k il w = (case as_sexp k il w of
      (Inl e, w') \<Rightarrow> (Inl e, w')
    | (Inr d, w') \<Rightarrow> (case rvector_ctor k d w' of
        Inl e \<Rightarrow> (Inl e, w')
      | Inr rv \<Rightarrow> (Inr (to_writable rv (int (length il))), w')))"

text \<open>The loop of the named constructor: \<open>data_p_[i] = doubles(it->value())[0]\<close>
  and the name of the \<open>i\<close>-th argument.\<close>

fun named_fill :: "'e kind \<Rightarrow> named_arg list \<Rightarrow> r_xlen_t \<Rightarrow> ('e vstate, unit) exn" where
  "named_fill k [] i s = (Inr (), s)"
| "named_fill k (a # rest) i (v, w) =
     (case rvector_ctor k (arg_value a) w of
        Inl e \<Rightarrow> (Inl e, (v, w))
      | Inr tmp \<Rightarrow> (case subscript tmp 0 w of
          Inl e \<Rightarrow> (Inl e, (v, w))
        | Inr x \<Rightarrow> (case ptr_write (r_data_p v) i x w of
            Inl e \<Rightarrow> (Inl e, (v, w))
          | Inr w1 \<Rightarrow> (case set_name_elt (r_data v) i (arg_name a) w1 of
              Inl e \<Rightarrow> (Inl e, (v, w1))
            | Inr w2 \<Rightarrow> named_fill k rest (i + 1) (v, w2)))))"

text \<open>The body run under \<open>unwind_protect\<close>: protect the data, attach a fresh names
  vector, fill values and names.\<close>

definition named_body :: "'e kind \<Rightarrow> named_arg list \<Rightarrow> ('e vstate, unit) exn" where
  "named_body k il s = (case s of (v, w) \<Rightarrow>
     (case protect_sexp (r_data v) w of (t, w1) \<Rightarrow>
      let v1 = v\<lparr>r_protect := t\<rparr> in
      (case set_names_attr (r_data v1) (w_capacity v1) w1 of
         (Inl e, w2) \<Rightarrow> (Inl e, (v1, w2))
       | (Inr _, w2) \<Rightarrow> named_fill k il 0 (v1, w2))))"

text \<open>\<open>writable::vector(std::initializer_list<named_arg>)\<close>: the handler catches
  \<open>unwind_exception\<close> only.\<close>

definition named_ctor :: "'e kind \<Rightarrow> named_arg list \<Rightarrow> ('e rstate, wvector) exn" where
  "named_ctor k il w =
     (case safe (Rf_allocVector (ktype k) (int (length il)) (na k)) w of
        (Inl e, w1) \<Rightarrow> (Inl e, w1)
      | (Inr d, w1) \<Rightarrow> (case rvector_ctor k d w1 of
          Inl e \<Rightarrow> (Inl e, w1)
        | Inr rv \<Rightarrow>
            (case unwind_protect (named_body k il) (to_writable rv (int (length il)), w1) of
               (Inl UnwindException, (v2, w2)) \<Rightarrow>
                 (Inl UnwindException, release_protect (r_protect v2) w2)
             | (Inl e, (v2, w2)) \<Rightarrow> (Inl e, w2)
             | (Inr _, (v2, w2)) \<Rightarrow> (Inr v2, w2))))"

section \<open>Growth\<close>

definition reserve :: "'e kind \<Rightarrow> r_xlen_t \<Rightarrow> ('e vstate, unit) exn" where
  "reserve k new_capacity s = (case s of (v, w) \<Rightarrow>
     (case (if r_data v = R_NilValue
            then safe (Rf_allocVector (ktype k) new_capacity (na k)) w
            else safe (Rf_xlengthgets (r_data v) new_capacity (na k)) w) of
        (Inl e, w1) \<Rightarrow> (Inl e, (v, w1))
      | (Inr d, w1) \<Rightarrow>
          (let v1 = v\<lparr>r_data := d\<rparr>;
               old_protect = r_protect v1
           in case protect_sexp (r_data v1) w1 of (t, w2) \<Rightarrow>
              let v2 = v1\<lparr>r_protect := t\<rparr>;
                  w3 = release_protect old_protect w2
              in (case DATAPTR (ktype k) (r_data v2) w3 of
                    Inl e \<Rightarrow> (Inl e, (v2, w3))
                  | Inr p \<Rightarrow> (Inr (), (v2\<lparr>r_data_p := p, w_capacity := new_capacity\<rparr>, w3))))))"

text \<open>
  The growth loop of \<open>push_back\<close>:
  \<open>while (length_ >= capacity_) reserve(capacity_ == 0 ? 1 : capacity_ *= 2);\<close>
  The argument is evaluated before the call, so \<open>capacity_\<close> is already doubled when
  \<open>reserve\<close> starts. The loop need not end (a negative capacity never catches up with
  the length), so it is a partial function: \<open>None\<close> is "does not return".
\<close>

partial_function (option) grow :: "'e kind \<Rightarrow> 'e vstate \<Rightarrow> ((error + unit) \<times> 'e vstate) option" where
  "grow k s = (case s of (v, w) \<Rightarrow>
     if r_length v \<ge> w_capacity v then
       (let v' = (if w_capacity v = 0 then v else v\<lparr>w_capacity := w_capacity v * 2\<rparr>);
            arg = (if w_capacity v = 0 then 1 else w_capacity v * 2)
        in case reserve k arg (v', w) of
             (Inl e, s') \<Rightarrow> Some (Inl e, s')
           | (Inr u, s') \<Rightarrow> grow k s')
     else Some (Inr (), s))"

declare grow.simps [code]

definition push_back :: "'e kind \<Rightarrow> 'e \<Rightarrow> 'e vstate \<Rightarrow> ((error + unit) \<times> 'e vstate) option" where
  "push_back k value s = (case grow k s of
      None \<Rightarrow> None
    | Some (Inl e, s') \<Rightarrow> Some (Inl e, s')
    | Some (Inr u, (v, w)) \<Rightarrow>
        (case (if r_is_altrep v then set_elt (r_data v) (r_length v) value w
               else ptr_write (r_data_p v) (r_length v) value w) of
           Inl e \<Rightarrow> Some (Inl e, (v, w))
         | Inr w' \<Rightarrow> Some (Inr (), (v\<lparr>r_length := r_length v + 1\<rparr>, w'))))"

text \<open>The default-constructed writable vector (vector.hpp): no data, no protection.\<close>

definition empty_wvector :: wvector where
  "empty_wvector = \<lparr>r_data = R_NilValue, r_protect = NoToken, r_is_altrep = False,
                    r_data_p = None, r_length = 0, w_capacity = 0\<rparr>"

text \<open>\<open>writable::vector<T>::at\<close> (vector.hpp): the checked proxy.\<close>

definition w_at :: "'e kind \<Rightarrow> wvector \<Rightarrow> r_xlen_t \<Rightarrow> error + proxy" where
  "w_at k v pos =
     (if pos < 0 \<or> pos \<ge> r_length v then Inl (OutOfRange (kname k)) else Inr (w_subscript v pos))"

section \<open>The invariant and the abstract contents\<close>

text \<open>The number of slots of the buffer the vector's handle addresses.\<close>

definition buf_len :: "'a rvector_scheme \<Rightarrow> 'e rstate \<Rightarrow> r_xlen_t" where
  "buf_len v w = (case deref (r_data v) w of Inl e \<Rightarrow> 0 | Inr ob \<Rightarrow> int (length (elts ob)))"

text \<open>
  The handle is live, of the vector's type, held by exactly one preserve-list cell,
  the vector's \<open>protect_\<close>, and no other cell is registered (the registry a counting
  mock would show). A materialised vector's \<open>data_p_\<close> addresses its own buffer.
  The ALTREP flag is allowed to be stale: \<open>reserve\<close> replaces the handle and sets
  \<open>data_p_\<close> but leaves \<open>is_altrep_\<close> as it was.
\<close>

definition handle_ok :: "'e kind \<Rightarrow> 'a rvector_scheme \<Rightarrow> 'e rstate \<Rightarrow> bool" where
  "handle_ok k v w \<longleftrightarrow> rt_wf w \<and>
     (if r_data v = R_NilValue
      then r_protect v = NoToken \<and> r_data_p v = None \<and> preserved w = []
      else (case (deref (r_data v) w, r_protect v) of
              (Inr ob, Cell c) \<Rightarrow> otype ob = ktype k \<and> preserved w = [(c, r_data v)] \<and>
                 (if r_is_altrep v then r_data_p v \<in> {None, Some (r_data v)}
                  else r_data_p v = Some (r_data v))
            | _ \<Rightarrow> False))"

text \<open>The element methods of the object the handle names answer: it is not an ALTREP
  object whose \<open>Elt\<close>/\<open>Set_elt\<close> methods raise an R error. The accessors call
  those methods without \<open>unwind_protect\<close> (the NOPROTECT comments of the source), so
  the invariant below assumes them; the failing case is a theorem of its own (C35).\<close>

definition elt_ok :: "'a rvector_scheme \<Rightarrow> 'e rstate \<Rightarrow> bool" where
  "elt_ok v w = (case deref (r_data v) w of Inl e \<Rightarrow> True | Inr ob \<Rightarrow> \<not> (alt ob \<and> elt_fails (r_data v) w))"

text \<open>The writable vector's invariant: \<open>0 \<le> length_ \<le> capacity_\<close>, the
  capacity is the buffer's length, and the element methods answer.\<close>

definition vec_inv :: "'e kind \<Rightarrow> 'e vstate \<Rightarrow> bool" where
  "vec_inv k s = (case s of (v, w) \<Rightarrow>
     handle_ok k v w \<and> 0 \<le> r_length v \<and> r_length v \<le> w_capacity v \<and> w_capacity v = buf_len v w \<and>
     elt_ok v w)"

text \<open>The abstract value of a vector: the list of its first \<open>length_\<close> elements.\<close>

definition contents :: "'e vstate \<Rightarrow> 'e list" where
  "contents s = (case s of (v, w) \<Rightarrow>
     (case deref (r_data v) w of Inl e \<Rightarrow> [] | Inr ob \<Rightarrow> take (nat (r_length v)) (elts ob)))"


text \<open>The doubles specialisation: \<open>REALSXP\<close>, the \<open>out_of_range\<close> message
  \<open>"doubles"\<close>, and \<open>NA_REAL\<close>. A double is kept as its IEEE-754 bit pattern;
  the layer only copies elements, so no arithmetic on them is modelled.\<close>

definition NA_REAL :: "64 word" where
  "NA_REAL = 0x7FF00000000007A2"

definition doubles :: "64 word kind" where
  "doubles = \<lparr>ktype = REALSXP, kname = ''doubles'', na = NA_REAL\<rparr>"

text \<open>A writable vector of doubles holding \<open>1.0\<close> with capacity 1, used by the
  witnesses below.\<close>

definition ex_v :: wvector where
  "ex_v = \<lparr>r_data = Addr 0, r_protect = Cell 0, r_is_altrep = False, r_data_p = Some (Addr 0),
           r_length = 1, w_capacity = 1\<rparr>"

definition ex_w :: "64 word rstate" where
  "ex_w = \<lparr>heap = [0 \<mapsto> \<lparr>otype = REALSXP, alt = False, elts = [0x3FF0000000000000], names = None\<rparr>],
           next_addr = 1, preserved = [(0, Addr 0)], next_cell = 1, mem_avail = 8, region_calls = 0,
           region_errors = {}, elt_errors = {}\<rparr>"

section \<open>Lemmas: the handle, reserve and the growth loop\<close>

lemma rvector_ctor_fresh:
  assumes "heap w a = Some ob" "otype ob = ktype k" "\<not> alt ob"
  shows "rvector_ctor k (Addr a) w = Inr \<lparr>r_data = Addr a, r_protect = NoToken, r_is_altrep = False,
            r_data_p = Some (Addr a), r_length = int (length (elts ob))\<rparr>"
  using assms by (simp add: rvector_ctor_def valid_type_def get_p_def rt_simps)

lemma handle_okE:
  assumes "handle_ok k v w" "r_data v \<noteq> R_NilValue"
  obtains a ob c where "r_data v = Addr a" "heap w a = Some ob" "otype ob = ktype k"
    "r_protect v = Cell c" "preserved w = [(c, Addr a)]" "c < next_cell w"
    "r_data_p v = None \<or> r_data_p v = Some (Addr a)" "r_is_altrep v \<or> r_data_p v = Some (Addr a)"
    "rt_wf w" "a < next_addr w"
proof -
  from assms obtain a where a: "r_data v = Addr a" by (cases "r_data v") auto
  with assms obtain ob c where "heap w a = Some ob" "r_protect v = Cell c"
    by (auto simp: handle_ok_def deref_def split: option.splits token.splits)
  moreover have "rt_wf w" using assms by (simp add: handle_ok_def)
  moreover have "a < next_addr w"
    using \<open>heap w a = Some ob\<close> \<open>rt_wf w\<close> by (metis not_le option.distinct(1) rt_wf_def)
  ultimately show ?thesis using assms a that
    by (auto simp: handle_ok_def deref_def rt_wf_def split: if_splits)
qed

lemma reserve_success:
  assumes inv: "handle_ok k v w" and len: "0 \<le> r_length v" "r_length v \<le> buf_len v w"
    and grow: "buf_len v w \<le> n"
    and res: "reserve k n (v, w) = (Inr u, (v', w'))"
  shows "handle_ok k v' w' \<and> buf_len v' w' = n \<and> w_capacity v' = n \<and>
         r_length v' = r_length v \<and> contents (v', w') = contents (v, w)"
proof (cases "r_data v = R_NilValue")
  case True
  with inv res len show ?thesis
    by (auto simp: handle_ok_def reserve_def Rf_allocVector_def buf_len_def contents_def rt_wf_def
                   rt_simps split: if_splits)
next
  case False
  with inv obtain a ob c where facts: "r_data v = Addr a" "heap w a = Some ob" "otype ob = ktype k"
    "r_protect v = Cell c" "preserved w = [(c, Addr a)]" "c < next_cell w"
    "r_data_p v = None \<or> r_data_p v = Some (Addr a)" "r_is_altrep v \<or> r_data_p v = Some (Addr a)"
    "rt_wf w" "a < next_addr w"
    by (rule handle_okE)
  show ?thesis
  proof (cases "int (length (elts ob)) = n")
    case True
    with facts res len show ?thesis
      by (auto simp: handle_ok_def reserve_def Rf_xlengthgets_def buf_len_def contents_def rt_wf_def
                   rt_simps split: if_splits)
  next
    case False
    with facts res len grow show ?thesis
      by (auto simp: handle_ok_def reserve_def Rf_xlengthgets_def Rf_allocVector_def buf_len_def contents_def rt_wf_def
                   rt_simps split: if_splits)
  qed
qed


lemma reserve_failure:
  assumes inv: "handle_ok k v w" and res: "reserve k n (v, w) = (Inl e, s')"
  shows "s' = (v, w) \<and> e = UnwindException"
proof (cases "r_data v = R_NilValue")
  case True
  with inv res show ?thesis
    by (auto simp: handle_ok_def reserve_def Rf_allocVector_def rt_simps split: if_splits)
next
  case False
  with inv obtain a ob c where facts: "r_data v = Addr a" "heap w a = Some ob" "otype ob = ktype k"
    by (rule handle_okE)
  with res show ?thesis
    by (auto simp: reserve_def Rf_xlengthgets_def Rf_allocVector_def rt_simps Let_def
             split: if_splits prod.splits sum.splits error.splits token.splits)
qed

lemma elt_ok_nil [simp]: "r_data v = R_NilValue \<Longrightarrow> elt_ok v w"
  by (simp add: elt_ok_def deref_def)

lemma elt_ok_no_errors [simp]: "elt_errors w = {} \<Longrightarrow> elt_ok v w"
  by (simp add: elt_ok_def elt_fails_def split: sum.split sexp.split)

lemma elt_ok_fields [simp]:
  "elt_ok ((v::wvector)\<lparr>w_capacity := c\<rparr>) w = elt_ok v w"
  "elt_ok ((v::wvector)\<lparr>r_length := n\<rparr>) w = elt_ok v w"
  by (simp_all add: elt_ok_def split: sum.split)

lemma elt_ok_put_obj:
  assumes "r_data v = Addr a" "heap w a = Some ob" "alt ob' = alt ob"
  shows "elt_ok v (put_obj (Addr a) ob' w) = elt_ok v w"
  using assms by (simp add: elt_ok_def elt_fails_def deref_def put_obj_def)

lemma elt_ok_gc: "elt_ok v w \<Longrightarrow> elt_ok v (R_gc roots w)"
  by (auto simp: elt_ok_def elt_fails_def deref_def R_gc_def split: sexp.splits option.splits)

text \<open>A successful \<open>reserve\<close> keeps the object (same length) or moves to a fresh,
  materialised one, so the element methods still answer.\<close>

lemma reserve_elt_ok:
  assumes inv: "handle_ok k v w" and ok: "elt_ok v w"
    and res: "reserve k n (v, w) = (Inr u, (v', w'))"
  shows "elt_ok v' w'"
proof (cases "r_data v = R_NilValue")
  case True
  with inv res show ?thesis
    by (auto simp: handle_ok_def reserve_def Rf_allocVector_def elt_ok_def rt_simps split: if_splits)
next
  case False
  with inv obtain a ob c where facts: "r_data v = Addr a" "heap w a = Some ob" "r_protect v = Cell c"
    "a < next_addr w" "rt_wf w"
    by (rule handle_okE)
  show ?thesis
  proof (cases "int (length (elts ob)) = n")
    case True
    with facts res ok show ?thesis
      by (auto simp: reserve_def Rf_xlengthgets_def elt_ok_def rt_simps Let_def split: if_splits)
  next
    case False
    with facts res show ?thesis
      by (auto simp: reserve_def Rf_xlengthgets_def Rf_allocVector_def elt_ok_def rt_simps Let_def
               split: if_splits)
  qed
qed

text \<open>A successful \<open>reserve(n)\<close>, whatever \<open>n\<close>, leaves a handle protected by
  exactly the vector's cell whose buffer has \<open>n\<close> slots.\<close>

lemma reserve_handle_ok:
  assumes inv: "handle_ok k v w" and res: "reserve k n (v, w) = (Inr u, (v', w'))"
  shows "handle_ok k v' w' \<and> 0 \<le> n \<and> buf_len v' w' = n"
proof (cases "r_data v = R_NilValue")
  case True
  with inv res show ?thesis
    by (auto simp: handle_ok_def reserve_def Rf_allocVector_def rt_wf_def buf_len_def rt_simps split: if_splits)
next
  case False
  with inv obtain a ob c where facts: "r_data v = Addr a" "heap w a = Some ob" "otype ob = ktype k"
    "r_protect v = Cell c" "preserved w = [(c, Addr a)]" "c < next_cell w"
    "r_data_p v = None \<or> r_data_p v = Some (Addr a)" "r_is_altrep v \<or> r_data_p v = Some (Addr a)"
    "rt_wf w" "a < next_addr w"
    by (rule handle_okE)
  show ?thesis
  proof (cases "int (length (elts ob)) = n")
    case True
    with facts res show ?thesis
      by (auto simp: handle_ok_def reserve_def Rf_xlengthgets_def rt_wf_def buf_len_def rt_simps split: if_splits)
  next
    case False
    with facts res show ?thesis
      by (auto simp: handle_ok_def reserve_def Rf_xlengthgets_def Rf_allocVector_def rt_wf_def buf_len_def
                   rt_simps split: if_splits)
  qed
qed

text \<open>A \<open>reserve(n)\<close> with \<open>n\<close> other than the buffer's length moves the data to the
  fresh object \<open>Rf_xlengthgets\<close> (or \<open>Rf_allocVector\<close>) allocates, a materialised
  one, whose buffer \<open>data_p_\<close> then addresses.\<close>

lemma reserve_moves:
  assumes inv: "handle_ok k v w" and n: "n \<noteq> buf_len v w"
    and res: "reserve k n (v, w) = (Inr u, (v', w'))"
  shows "r_data v' = Addr (next_addr w) \<and> r_data_p v' = Some (r_data v') \<and> ALTREP (r_data v') w' = Inr False"
proof (cases "r_data v = R_NilValue")
  case True
  with inv res show ?thesis
    by (auto simp: handle_ok_def reserve_def Rf_allocVector_def rt_simps split: if_splits)
next
  case False
  with inv obtain a ob c where facts: "r_data v = Addr a" "heap w a = Some ob" "otype ob = ktype k"
    "r_protect v = Cell c" "a < next_addr w"
    by (rule handle_okE)
  with n have "int (length (elts ob)) \<noteq> n" by (simp add: buf_len_def deref_def)
  with facts res show ?thesis
    by (auto simp: reserve_def Rf_xlengthgets_def Rf_allocVector_def rt_simps split: if_splits)
qed

text \<open>Reading or writing a slot at or beyond the buffer, by either access path, is
  undefined behaviour.\<close>

lemma read_past_buffer:
  assumes "handle_ok k v w" "elt_ok v w" "buf_len v w \<le> i"
  shows "(if r_is_altrep v then get_elt (r_data v) i w else ptr_read (r_data_p v) i w) = Inl Undefined"
proof (cases "r_data v = R_NilValue")
  case True
  with assms show ?thesis by (simp add: handle_ok_def get_elt_def ptr_read_def deref_def)
next
  case False
  with assms(1) obtain a ob where f: "r_data v = Addr a" "heap w a = Some ob"
    "r_data_p v = None \<or> r_data_p v = Some (Addr a)" "r_is_altrep v \<or> r_data_p v = Some (Addr a)"
    by (rule handle_okE)
  with assms(2,3) show ?thesis
    by (auto simp: get_elt_def buf_get_def ptr_read_def elt_ok_def buf_len_def deref_def)
qed

lemma write_past_buffer:
  assumes "handle_ok k v w" "elt_ok v w" "buf_len v w \<le> i"
  shows "(if r_is_altrep v then set_elt (r_data v) i x w else ptr_write (r_data_p v) i x w) = Inl Undefined"
proof (cases "r_data v = R_NilValue")
  case True
  with assms show ?thesis by (simp add: handle_ok_def set_elt_def ptr_write_def deref_def)
next
  case False
  with assms(1) obtain a ob where f: "r_data v = Addr a" "heap w a = Some ob"
    "r_data_p v = None \<or> r_data_p v = Some (Addr a)" "r_is_altrep v \<or> r_data_p v = Some (Addr a)"
    by (rule handle_okE)
  with assms(2,3) show ?thesis
    by (auto simp: set_elt_def buf_set_def ptr_write_def elt_ok_def buf_len_def deref_def)
qed

lemma reserve_fields:
  assumes "reserve k n (v, w) = (r, (v', w'))"
  shows "r_length v' = r_length v \<and> r_is_altrep v' = r_is_altrep v \<and>
         w_capacity v' = (if r = Inr () then n else w_capacity v)"
  using assms
  by (auto simp: reserve_def Let_def split: if_splits prod.splits sum.splits)

lemma grow_returns:
  assumes "0 \<le> w_capacity v"
  shows "\<exists>r. grow k (v, w) = Some r"
  using assms
proof (induction "nat (r_length v + 1 - w_capacity v)" arbitrary: v w rule: less_induct)
  case less
  show ?case
  proof (cases "w_capacity v \<le> r_length v")
    case False
    then show ?thesis by (simp add: grow.simps)
  next
    case True
    define v' where "v' = (if w_capacity v = 0 then v else v\<lparr>w_capacity := w_capacity v * 2\<rparr>)"
    define arg where "arg = (if w_capacity v = 0 then 1 else w_capacity v * 2)"
    obtain r v'' w'' where res: "reserve k arg (v', w) = (r, (v'', w''))"
      by (metis prod.exhaust)
    have unfold: "grow k (v, w) = (case reserve k arg (v', w) of
                     (Inl e, s') \<Rightarrow> Some (Inl e, s') | (Inr u, s') \<Rightarrow> grow k s')"
      using True by (simp add: grow.simps [of k "(v, w)"] v'_def arg_def Let_def)
    show ?thesis
    proof (cases r)
      case (Inl e)
      with unfold res show ?thesis by simp
    next
      case (Inr u)
      with res reserve_fields [OF res] have f: "r_length v'' = r_length v" "w_capacity v'' = arg"
        by (simp_all add: v'_def split: if_splits)
      have "arg > w_capacity v" "0 \<le> arg" using less.prems by (auto simp: arg_def)
      then have "nat (r_length v'' + 1 - w_capacity v'') < nat (r_length v + 1 - w_capacity v)"
        using f True by simp
      with less.hyps f \<open>0 \<le> arg\<close> obtain r' where "grow k (v'', w'') = Some r'" by fastforce
      with unfold res Inr have "grow k (v, w) = Some r'" by simp
      then show ?thesis by blast
    qed
  qed
qed


text \<open>The growth loop never changes the representation flag (fixpoint induction over
  the partial function).\<close>

lemma grow_altrep:
  "grow k s = Some r \<Longrightarrow> r_is_altrep (fst (snd r)) = r_is_altrep (fst s)"
proof (induction rule: grow.raw_induct [rotated, consumes 1])
  case (1 g k s r)
  obtain v w where s: "s = (v, w)" by (cases s)
  show ?case
  proof (cases "w_capacity v \<le> r_length v")
    case False
    with 1(2) s show ?thesis by auto
  next
    case True
    define v' where "v' = (if w_capacity v = 0 then v else v\<lparr>w_capacity := w_capacity v * 2\<rparr>)"
    define arg where "arg = (if w_capacity v = 0 then 1 else w_capacity v * 2)"
    obtain rr v'' w'' where res: "reserve k arg (v', w) = (rr, (v'', w''))" by (metis prod.exhaust)
    have f: "r_is_altrep v'' = r_is_altrep v" using reserve_fields [OF res] by (simp add: v'_def)
    have body: "(case reserve k arg (v', w) of (Inl e, s') \<Rightarrow> Some (Inl e, s')
                  | (Inr u, s') \<Rightarrow> g k s') = Some r"
      using 1(2) True s by (simp add: v'_def arg_def Let_def)
    show ?thesis
    proof (cases rr)
      case (Inl e)
      with body res f s show ?thesis by auto
    next
      case (Inr u)
      with body res have "g k (v'', w'') = Some r" by simp
      from 1(1) [OF this] f s show ?thesis by simp
    qed
  qed
qed
lemma push_back_altrep:
  "push_back k x s = Some (r, s') \<Longrightarrow> r_is_altrep (fst s') = r_is_altrep (fst s)"
  by (auto simp: push_back_def split: option.splits sum.splits prod.splits if_splits dest!: grow_altrep)

lemma handle_ok_capacity [simp]: "handle_ok k ((v::wvector)\<lparr>w_capacity := c\<rparr>) w = handle_ok k v w"
  by (simp add: handle_ok_def split: sum.split token.split)

lemma handle_ok_length [simp]: "handle_ok k ((v::wvector)\<lparr>r_length := n\<rparr>) w = handle_ok k v w"
  by (simp add: handle_ok_def split: sum.split token.split)

lemma buf_len_capacity [simp]: "buf_len ((v::wvector)\<lparr>w_capacity := c\<rparr>) w = buf_len v w"
  by (simp add: buf_len_def)

lemma contents_capacity [simp]: "contents ((v::wvector)\<lparr>w_capacity := c\<rparr>, w) = contents (v, w)"
  by (simp add: contents_def split: sum.split)

lemma length_contents:
  "vec_inv k (v, w) \<Longrightarrow> length (contents (v, w)) = nat (r_length v) \<and> 0 \<le> r_length v"
  by (auto simp: vec_inv_def contents_def buf_len_def split: sum.splits)

lemma reserve_succeeds:
  assumes inv: "handle_ok k v w" and n: "0 \<le> n" "n \<noteq> buf_len v w \<longrightarrow> n \<le> int (mem_avail w)"
  shows "\<exists>v' w'. reserve k n (v, w) = (Inr (), (v', w'))"
proof (cases "r_data v = R_NilValue")
  case True
  with inv n show ?thesis
    by (auto simp: handle_ok_def reserve_def Rf_allocVector_def buf_len_def rt_simps)
next
  case False
  with inv obtain a ob c where facts: "r_data v = Addr a" "heap w a = Some ob" "otype ob = ktype k"
    by (rule handle_okE)
  with n show ?thesis
    by (auto simp: reserve_def Rf_xlengthgets_def Rf_allocVector_def buf_len_def rt_simps Let_def
             split: token.splits)
qed

lemma grow_vec_inv:
  assumes inv: "vec_inv k (v, w)" and g: "grow k (v, w) = Some (Inr u, (v', w'))"
  shows "vec_inv k (v', w') \<and> contents (v', w') = contents (v, w) \<and> r_length v' = r_length v \<and>
         r_length v' < w_capacity v'"
proof (cases "w_capacity v \<le> r_length v")
  case False
  with inv g show ?thesis by (simp add: grow.simps)
next
  case True
  define v1 where "v1 = (if w_capacity v = 0 then v else v\<lparr>w_capacity := w_capacity v * 2\<rparr>)"
  define arg where "arg = (if w_capacity v = 0 then 1 else w_capacity v * 2)"
  from inv True have eq: "r_length v = w_capacity v" "0 \<le> w_capacity v" "w_capacity v = buf_len v w"
    "handle_ok k v w"
    by (auto simp: vec_inv_def)
  obtain r v'' w'' where res: "reserve k arg (v1, w) = (r, (v'', w''))"
    by (metis prod.exhaust)
  have unfold: "grow k (v, w) = (case reserve k arg (v1, w) of
                   (Inl e, s') \<Rightarrow> Some (Inl e, s') | (Inr u, s') \<Rightarrow> grow k s')"
    using True by (simp add: grow.simps [of k "(v, w)"] v1_def arg_def Let_def)
  with g res obtain u' where r: "r = Inr u'" by (cases r) auto
  have h1: "handle_ok k v1 w" "buf_len v1 w = buf_len v w" "contents (v1, w) = contents (v, w)"
    "r_length v1 = r_length v"
    using eq by (simp_all add: v1_def)
  have "handle_ok k v'' w'' \<and> buf_len v'' w'' = arg \<and> w_capacity v'' = arg \<and>
        r_length v'' = r_length v1 \<and> contents (v'', w'') = contents (v1, w)"
    by (rule reserve_success [OF h1(1) _ _ _ res [unfolded r]]) (use eq h1 in \<open>auto simp: arg_def\<close>)
  moreover have "r_length v < arg" using eq by (auto simp: arg_def)
  ultimately have "grow k (v'', w'') = Some (Inr (), (v'', w''))"
    using h1 by (simp add: grow.simps)
  with unfold res r g have "(v', w') = (v'', w'')" by simp
  moreover have "elt_ok v'' w''"
    by (rule reserve_elt_ok [OF h1(1) _ res [unfolded r]]) (use inv in \<open>simp add: v1_def vec_inv_def\<close>)
  ultimately show ?thesis using \<open>handle_ok k v'' w'' \<and> _\<close> \<open>r_length v < arg\<close> h1 eq
    by (auto simp: vec_inv_def)
qed


lemma handle_ok_put_obj:
  assumes "handle_ok k v w" "r_data v = Addr a" "heap w a = Some ob" "otype ob' = otype ob"
  shows "handle_ok k v (put_obj (Addr a) ob' w)"
proof -
  from assms have "a < next_addr w"
    by (auto elim: handle_okE)
  with assms show ?thesis
    by (auto simp: handle_ok_def rt_wf_def rt_simps split: sum.splits token.splits if_splits)
qed

lemma write_slot:
  assumes "handle_ok k v w" "r_data v \<noteq> R_NilValue" "0 \<le> i" "i < buf_len v w" "elt_ok v w"
  obtains a ob where "r_data v = Addr a" "heap w a = Some ob"
    "(if r_is_altrep v then set_elt (r_data v) i x w else ptr_write (r_data_p v) i x w) =
       Inr (put_obj (Addr a) (ob\<lparr>elts := (elts ob)[nat i := x]\<rparr>) w)"
proof -
  from assms(1,2) obtain a ob c where f: "r_data v = Addr a" "heap w a = Some ob"
    "r_is_altrep v \<or> r_data_p v = Some (Addr a)"
    by (rule handle_okE)
  with assms(3-5) have "(if r_is_altrep v then set_elt (r_data v) i x w else ptr_write (r_data_p v) i x w) =
       Inr (put_obj (Addr a) (ob\<lparr>elts := (elts ob)[nat i := x]\<rparr>) w)"
    by (auto simp: buf_len_def set_elt_def buf_set_def elt_fails_def ptr_write_def buf_set_def deref_def elt_ok_def)
  with f that show ?thesis by blast
qed

lemma push_back_vec_inv:
  assumes inv: "vec_inv k s" and pb: "push_back k x s = Some (Inr u, s')"
  shows "vec_inv k s' \<and> contents s' = contents s @ [x]"
proof -
  obtain v w where s: "s = (v, w)" by (cases s)
  from pb s obtain v1 w1 u1 where g: "grow k (v, w) = Some (Inr u1, (v1, w1))"
    by (auto simp: push_back_def split: option.splits sum.splits prod.splits)
  from grow_vec_inv [OF inv [unfolded s] g] have i1: "vec_inv k (v1, w1)"
    "contents (v1, w1) = contents (v, w)" "r_length v1 < w_capacity v1" by auto
  then have h: "handle_ok k v1 w1" "0 \<le> r_length v1" "w_capacity v1 = buf_len v1 w1" "elt_ok v1 w1"
    by (auto simp: vec_inv_def)
  then have nn: "r_data v1 \<noteq> R_NilValue"
    using i1(3) by (auto simp: buf_len_def deref_def)
  from write_slot [OF h(1) nn h(2)] i1(3) h(3,4) obtain a ob where
    wr: "r_data v1 = Addr a" "heap w1 a = Some ob"
      "(if r_is_altrep v1 then set_elt (r_data v1) (r_length v1) x w1
        else ptr_write (r_data_p v1) (r_length v1) x w1) =
       Inr (put_obj (Addr a) (ob\<lparr>elts := (elts ob)[nat (r_length v1) := x]\<rparr>) w1)"
    by auto
  let ?w2 = "put_obj (Addr a) (ob\<lparr>elts := (elts ob)[nat (r_length v1) := x]\<rparr>) w1"
  have s': "s' = (v1\<lparr>r_length := r_length v1 + 1\<rparr>, ?w2)"
    using pb s g wr(3) by (simp add: push_back_def)
  have "handle_ok k v1 ?w2"
    by (rule handle_ok_put_obj [OF h(1) wr(1,2)]) simp
  then have hok: "handle_ok k (v1\<lparr>r_length := r_length v1 + 1\<rparr>) ?w2"
    by simp
  have bl: "int (length (elts ob)) = w_capacity v1"
    using h(3) wr by (simp add: buf_len_def deref_def)
  have lt: "nat (r_length v1) < length (elts ob)"
    using bl i1(3) h(2) by linarith
  have c1: "contents (v1, w1) = take (nat (r_length v1)) (elts ob)"
    using wr by (simp add: contents_def deref_def)
  have c2: "contents s' = take (nat (r_length v1)) (elts ob) @ [x]"
    using wr s' lt h(2) by (simp add: contents_def deref_def put_obj_def take_update_last nat_add_distrib)
  have "elt_ok v1 ?w2" using elt_ok_put_obj [OF wr(1,2)] h(4) by simp
  then have "vec_inv k s'"
    using hok h(2) i1(3) bl wr s' by (simp add: vec_inv_def buf_len_def deref_def put_obj_def)
  with c1 c2 i1(2) s show ?thesis by simp
qed


text \<open>C9: push_back returns (normally or by an exception) whenever the capacity is not
  negative: the growth loop terminates.\<close>

theorem push_back_returns:
  assumes "0 \<le> w_capacity v"
  shows "\<exists>r. push_back k x (v, w) = Some r"
proof -
  from grow_returns [OF assms] obtain r where "grow k (v, w) = Some r" by blast
  then show ?thesis
    by (auto simp: push_back_def split: prod.splits sum.splits)
qed

lemma grow_succeeds:
  assumes inv: "vec_inv k (v, w)"
    and mem: "r_length v = w_capacity v \<longrightarrow> max 1 (2 * w_capacity v) \<le> int (mem_avail w)"
  shows "\<exists>u s1. grow k (v, w) = Some (Inr u, s1)"
proof (cases "w_capacity v \<le> r_length v")
  case False
  then show ?thesis by (simp add: grow.simps)
next
  case True
  define v1 where "v1 = (if w_capacity v = 0 then v else v\<lparr>w_capacity := w_capacity v * 2\<rparr>)"
  define arg where "arg = (if w_capacity v = 0 then 1 else w_capacity v * 2)"
  from inv True have eq: "r_length v = w_capacity v" "0 \<le> w_capacity v" "w_capacity v = buf_len v w"
    "handle_ok k v w"
    by (auto simp: vec_inv_def)
  have unfold: "grow k (v, w) = (case reserve k arg (v1, w) of
                   (Inl e, s') \<Rightarrow> Some (Inl e, s') | (Inr u, s') \<Rightarrow> grow k s')"
    using True by (simp add: grow.simps [of k "(v, w)"] v1_def arg_def Let_def)
  have h1: "handle_ok k v1 w" "buf_len v1 w = buf_len v w" "r_length v1 = r_length v"
    using eq by (simp_all add: v1_def)
  have "0 \<le> arg" "arg \<noteq> buf_len v1 w \<longrightarrow> arg \<le> int (mem_avail w)"
    using eq mem h1 by (auto simp: arg_def)
  from reserve_succeeds [OF h1(1) this] obtain v'' w'' where
    res: "reserve k arg (v1, w) = (Inr (), (v'', w''))" by blast
  have "w_capacity v'' = arg \<and> r_length v'' = r_length v1"
    using reserve_success [OF h1(1) _ _ _ res] eq h1 by (auto simp: arg_def)
  moreover have "r_length v < arg" using eq by (auto simp: arg_def)
  ultimately have "grow k (v'', w'') = Some (Inr (), (v'', w''))"
    using h1 by (simp add: grow.simps)
  with unfold res show ?thesis by simp
qed

text \<open>C8: push_back succeeds on a vector satisfying the invariant whenever the runtime can
  allocate the doubled buffer that a full vector needs.\<close>

theorem push_back_succeeds:
  assumes inv: "vec_inv k (v, w)"
    and mem: "r_length v = w_capacity v \<longrightarrow> max 1 (2 * w_capacity v) \<le> int (mem_avail w)"
  shows "\<exists>s'. push_back k x (v, w) = Some (Inr (), s')"
proof -
  from grow_succeeds [OF inv mem] obtain u v1 w1 where g: "grow k (v, w) = Some (Inr u, (v1, w1))"
    by auto
  from grow_vec_inv [OF inv g] have i1: "vec_inv k (v1, w1)" "r_length v1 < w_capacity v1" by auto
  then have h: "handle_ok k v1 w1" "0 \<le> r_length v1" "w_capacity v1 = buf_len v1 w1" "elt_ok v1 w1"
    by (auto simp: vec_inv_def)
  then have nn: "r_data v1 \<noteq> R_NilValue"
    using i1(2) by (auto simp: buf_len_def deref_def)
  have lt: "r_length v1 < buf_len v1 w1" using i1(2) h(3) by simp
  from write_slot [where x = x, OF h(1) nn h(2) lt h(4)] obtain a ob where
    "(if r_is_altrep v1 then set_elt (r_data v1) (r_length v1) x w1
        else ptr_write (r_data_p v1) (r_length v1) x w1) =
       Inr (put_obj (Addr a) (ob\<lparr>elts := (elts ob)[nat (r_length v1) := x]\<rparr>) w1)"
    by blast
  with g show ?thesis by (simp add: push_back_def)
qed

lemma vec_inv_gc:
  assumes "vec_inv k (v, w)"
  shows "vec_inv k (v, R_gc roots w) \<and> contents (v, R_gc roots w) = contents (v, w)"
proof -
  have eo: "elt_ok v (R_gc roots w)" using assms by (simp add: vec_inv_def elt_ok_gc)
  show ?thesis
  proof (cases "r_data v = R_NilValue")
    case True
    with assms show ?thesis
      by (auto simp: vec_inv_def handle_ok_def buf_len_def contents_def rt_wf_def R_gc_def deref_def)
  next
    case False
    with assms obtain a ob c where f: "r_data v = Addr a" "heap w a = Some ob"
      "preserved w = [(c, Addr a)]"
      by (auto simp: vec_inv_def elim: handle_okE)
    then have "heap (R_gc roots w) a = Some ob" "preserved (R_gc roots w) = preserved w"
      by (auto simp: R_gc_def)
    with assms f eo show ?thesis
      by (auto simp: vec_inv_def handle_ok_def buf_len_def contents_def rt_wf_def deref_def
               split: sum.splits token.splits, auto simp: R_gc_def)
  qed
qed

section \<open>Lemmas and properties: reads, writes, growth\<close>

lemma read_slot:
  assumes "handle_ok k v w" "r_data v \<noteq> R_NilValue" "0 \<le> i" "i < buf_len v w" "elt_ok v w"
  obtains a ob where "r_data v = Addr a" "heap w a = Some ob"
    "(if r_is_altrep v then get_elt (r_data v) i w else ptr_read (r_data_p v) i w) =
       Inr (elts ob ! nat i)"
proof -
  from assms(1,2) obtain a ob c where f: "r_data v = Addr a" "heap w a = Some ob"
    "r_is_altrep v \<or> r_data_p v = Some (Addr a)"
    by (rule handle_okE)
  with assms(3-5) have "(if r_is_altrep v then get_elt (r_data v) i w else ptr_read (r_data_p v) i w) =
       Inr (elts ob ! nat i)"
    by (auto simp: buf_len_def get_elt_def buf_get_def elt_fails_def ptr_read_def buf_get_def deref_def elt_ok_def)
  with f that show ?thesis by blast
qed

lemma vec_inv_data:
  assumes "vec_inv k (v, w)" "0 \<le> pos" "pos < r_length v"
  shows "handle_ok k v w" "r_data v \<noteq> R_NilValue" "pos < buf_len v w" "elt_ok v w"
  using assms by (auto simp: vec_inv_def buf_len_def deref_def)

text \<open>C5: Inside the bounds, the checked access at returns exactly what the unchecked operator[] returns, for both representations.\<close>

theorem at_eq_subscript:
  "0 \<le> pos \<Longrightarrow> pos < r_length v \<Longrightarrow> at k v pos w = subscript v pos w"
  by (simp add: at_def subscript_def)

theorem at_eq_subscript_witness:
  "at doubles ex_v 0 ex_w = subscript ex_v 0 ex_w \<and> at doubles ex_v 0 ex_w = Inr 0x3FF0000000000000"
proof -
  have "at doubles ex_v 0 ex_w = subscript ex_v 0 ex_w"
    by (rule at_eq_subscript) (simp_all add: ex_v_def)
  then show ?thesis by (simp add: subscript_def ex_v_def ex_w_def rt_simps)
qed

text \<open>C4: The checked access at throws std::out_of_range carrying the kind name for every negative index and every index at or beyond length_, including on an empty vector.\<close>

theorem at_out_of_range:
  "pos < 0 \<or> r_length v \<le> pos \<Longrightarrow> at k v pos w = Inl (OutOfRange (kname k))"
  by (auto simp: at_def)

theorem at_out_of_range_witness:
  "at doubles empty_wvector 0 ex_w = Inl (OutOfRange ''doubles'') \<and>
   at doubles ex_v (-1) ex_w = Inl (OutOfRange ''doubles'')"
  using at_out_of_range [of 0 empty_wvector doubles ex_w] at_out_of_range [of "-1" ex_v doubles ex_w]
  by (simp add: empty_wvector_def doubles_def)

lemma proxy_get_at:
  assumes "vec_inv k (v, w)" "0 \<le> pos" "pos < r_length v"
  shows "proxy_get (w_subscript v pos) w = at k v pos w"
proof -
  note d = vec_inv_data [OF assms]
  show ?thesis
    using d(1,2) assms(2,3)
    by (auto simp: proxy_get_def w_subscript_def at_def handle_ok_def ptr_read_def buf_get_def
             split: sum.splits token.splits if_splits)
qed

lemma at_contents:
  assumes "vec_inv k (v, w)" "0 \<le> pos" "pos < r_length v"
  shows "at k v pos w = Inr (contents (v, w) ! nat pos)"
proof -
  note d = vec_inv_data [OF assms]
  from read_slot [OF d(1,2) assms(2) d(3,4)] obtain a ob where
    r: "r_data v = Addr a" "heap w a = Some ob"
       "(if r_is_altrep v then get_elt (r_data v) pos w else ptr_read (r_data_p v) pos w) =
          Inr (elts ob ! nat pos)" .
  with assms show ?thesis
    by (simp add: at_def contents_def deref_def)
qed

text \<open>C3: On a vector satisfying the invariant, at and the proxy conversion of writable operator[] both return the element of the abstract contents at that index, whether the vector is ALTREP (element calls; the invariant includes that its element methods answer) or materialised (direct pointer).\<close>

theorem reads_agree_with_contents:
  assumes "vec_inv k (v, w)" "0 \<le> pos" "pos < r_length v"
  shows "at k v pos w = Inr (contents (v, w) ! nat pos) \<and>
         proxy_get (w_subscript v pos) w = Inr (contents (v, w) ! nat pos)"
  using proxy_get_at [OF assms] at_contents [OF assms] by simp

lemma ex_inv: "vec_inv doubles (ex_v, ex_w)"
  by (simp add: vec_inv_def handle_ok_def buf_len_def rt_wf_def ex_v_def ex_w_def doubles_def deref_def)

theorem reads_agree_with_contents_witness:
  "at doubles ex_v 0 ex_w = Inr 0x3FF0000000000000 \<and>
   proxy_get (w_subscript ex_v 0) ex_w = Inr 0x3FF0000000000000"
  using reads_agree_with_contents [OF ex_inv, of 0]
  by (simp add: ex_v_def ex_w_def contents_def deref_def)

text \<open>C1: After a successful push_back(x), the length grew by one, at(old length) returns x, and every earlier element reads as before.\<close>

theorem push_back_then_at:
  assumes inv: "vec_inv k (v, w)" and pb: "push_back k x (v, w) = Some (Inr u, (v', w'))"
  shows "r_length v' = r_length v + 1 \<and> at k v' (r_length v) w' = Inr x \<and>
         (\<forall>i. 0 \<le> i \<and> i < r_length v \<longrightarrow> at k v' i w' = at k v i w)"
proof -
  from push_back_vec_inv [OF inv pb] have i': "vec_inv k (v', w')"
    and c: "contents (v', w') = contents (v, w) @ [x]" by auto
  have len: "length (contents (v, w)) = nat (r_length v)" "0 \<le> r_length v"
    "length (contents (v', w')) = nat (r_length v')" "0 \<le> r_length v'"
    using length_contents [OF inv] length_contents [OF i'] by auto
  then have l': "r_length v' = r_length v + 1" using c by simp
  have "at k v' (r_length v) w' = Inr x"
    using at_contents [OF i', of "r_length v"] len l' c by (simp add: nth_append)
  moreover have "\<forall>i. 0 \<le> i \<and> i < r_length v \<longrightarrow> at k v' i w' = at k v i w"
    using at_contents [OF i'] at_contents [OF inv] len l' c by (simp add: nth_append)
  ultimately show ?thesis using l' by simp
qed

theorem push_back_then_at_witness:
  "case push_back doubles 0x4000000000000000 (ex_v, ex_w) of
     Some (Inr u, (v', w')) \<Rightarrow> r_length v' = 2 \<and> at doubles v' 1 w' = Inr 0x4000000000000000
   | _ \<Rightarrow> False"
proof -
  obtain v' w' where pb: "push_back doubles 0x4000000000000000 (ex_v, ex_w) = Some (Inr (), (v', w'))"
    by (simp add: push_back_def grow.simps reserve_def ex_v_def ex_w_def doubles_def
                  Rf_xlengthgets_def Rf_allocVector_def rt_simps)
  from push_back_then_at [OF ex_inv pb] pb show ?thesis by (simp add: ex_v_def)
qed

text \<open>C6: A successful reserve(n) with n at least the capacity keeps the invariant and the contents, and sets the capacity to n.\<close>

theorem reserve_keeps_elements:
  assumes inv: "vec_inv k (v, w)" and n: "w_capacity v \<le> n"
    and res: "reserve k n (v, w) = (Inr u, (v', w'))"
  shows "vec_inv k (v', w') \<and> contents (v', w') = contents (v, w) \<and> w_capacity v' = n"
proof -
  from inv have h: "handle_ok k v w" "0 \<le> r_length v" "r_length v \<le> buf_len v w" "buf_len v w \<le> n"
    using n by (auto simp: vec_inv_def)
  moreover have "elt_ok v' w'" using reserve_elt_ok [OF h(1) _ res] inv by (simp add: vec_inv_def)
  ultimately show ?thesis using reserve_success [OF h res] n
    by (auto simp: vec_inv_def)
qed

theorem reserve_keeps_elements_witness:
  "case reserve doubles 4 (ex_v, ex_w) of
     (Inr u, (v', w')) \<Rightarrow> contents (v', w') = [0x3FF0000000000000] \<and> w_capacity v' = 4
   | _ \<Rightarrow> False"
proof -
  obtain v' w' where res: "reserve doubles 4 (ex_v, ex_w) = (Inr (), (v', w'))"
    by (simp add: reserve_def ex_v_def ex_w_def doubles_def Rf_xlengthgets_def Rf_allocVector_def rt_simps)
  have "w_capacity ex_v \<le> 4" by (simp add: ex_v_def)
  from reserve_keeps_elements [OF ex_inv this res] res show ?thesis
    by (simp add: contents_def ex_v_def ex_w_def deref_def)
qed

text \<open>C7: When reserve fails, it throws unwind_exception and leaves the vector and the runtime exactly as they were.\<close>

theorem reserve_strong_exception_safety:
  assumes "vec_inv k s" "reserve k n s = (Inl e, s')"
  shows "s' = s \<and> e = UnwindException"
proof -
  obtain v w where s: "s = (v, w)" by (cases s)
  with assms show ?thesis using reserve_failure [of k v w n e s'] by (simp add: vec_inv_def)
qed

theorem reserve_strong_exception_safety_witness:
  "reserve doubles 100 (ex_v, ex_w) = (Inl UnwindException, (ex_v, ex_w))"
proof -
  obtain e s' where res: "reserve doubles 100 (ex_v, ex_w) = (Inl e, s')"
    by (simp add: reserve_def ex_v_def ex_w_def doubles_def Rf_xlengthgets_def Rf_allocVector_def rt_simps)
  from reserve_strong_exception_safety [OF ex_inv res] res show ?thesis by simp
qed

lemma proxy_assign_slot:
  assumes inv: "vec_inv k (v, w)" and pos: "0 \<le> pos" "pos < r_length v"
  shows "\<exists>w'. proxy_assign (w_subscript v pos) x w = Inr w' \<and> vec_inv k (v, w') \<and>
              contents (v, w') = (contents (v, w))[nat pos := x]"
proof -
  note d = vec_inv_data [OF inv pos]
  have eq: "proxy_assign (w_subscript v pos) x w =
        (if r_is_altrep v then set_elt (r_data v) pos x w else ptr_write (r_data_p v) pos x w)"
    by (simp add: proxy_assign_def w_subscript_def)
  from write_slot [where x = x, OF d(1,2) pos(1) d(3,4)] obtain a ob where
    wr: "r_data v = Addr a" "heap w a = Some ob"
        "(if r_is_altrep v then set_elt (r_data v) pos x w else ptr_write (r_data_p v) pos x w) =
         Inr (put_obj (Addr a) (ob\<lparr>elts := (elts ob)[nat pos := x]\<rparr>) w)" .
  let ?w' = "put_obj (Addr a) (ob\<lparr>elts := (elts ob)[nat pos := x]\<rparr>) w"
  have "handle_ok k v ?w'"
    by (rule handle_ok_put_obj [OF d(1) wr(1,2)]) simp
  moreover have "elt_ok v ?w'" using elt_ok_put_obj [OF wr(1,2)] d(4) by simp
  ultimately have "vec_inv k (v, ?w')" using inv wr
    by (simp add: vec_inv_def buf_len_def deref_def put_obj_def)
  moreover have "contents (v, ?w') = (contents (v, w))[nat pos := x]"
    using wr by (simp add: contents_def deref_def put_obj_def take_update_swap)
  ultimately show ?thesis using eq wr(3) by auto
qed

text \<open>C10: Assigning through the proxy of writable operator[] at an index inside the
  bounds succeeds, keeps the invariant, makes at return the assigned value there, and leaves
  every other index as it was.\<close>

theorem proxy_assign_writes:
  assumes inv: "vec_inv k (v, w)" and pos: "0 \<le> pos" "pos < r_length v"
  shows "\<exists>w'. proxy_assign (w_subscript v pos) x w = Inr w' \<and> vec_inv k (v, w') \<and>
              at k v pos w' = Inr x \<and> (\<forall>i. i \<noteq> pos \<longrightarrow> at k v i w' = at k v i w)"
proof -
  from proxy_assign_slot [OF inv pos, of x] obtain w' where
    a: "proxy_assign (w_subscript v pos) x w = Inr w'" "vec_inv k (v, w')"
       "contents (v, w') = (contents (v, w))[nat pos := x]" by blast
  have len: "length (contents (v, w)) = nat (r_length v)"
    using length_contents [OF inv] by simp
  have "at k v pos w' = Inr x"
    using at_contents [OF a(2) pos] a(3) len pos by simp
  moreover have "\<forall>i. i \<noteq> pos \<longrightarrow> at k v i w' = at k v i w"
  proof (intro allI impI)
    fix i assume "i \<noteq> pos"
    show "at k v i w' = at k v i w"
    proof (cases "0 \<le> i \<and> i < r_length v")
      case True
      with at_contents [OF a(2)] at_contents [OF inv] a(3) pos \<open>i \<noteq> pos\<close> show ?thesis
        by (simp add: nat_eq_iff2)
    next
      case False
      then show ?thesis by (auto simp: at_def)
    qed
  qed
  ultimately show ?thesis using a(1,2) by blast
qed

theorem proxy_assign_writes_witness:
  "\<exists>w'. proxy_assign (w_subscript ex_v 0) 0x4000000000000000 ex_w = Inr w' \<and>
        vec_inv doubles (ex_v, w') \<and> at doubles ex_v 0 w' = Inr 0x4000000000000000"
proof -
  from proxy_assign_writes [OF ex_inv, where pos = 0 and x = "0x4000000000000000"] show ?thesis
    by (simp add: ex_v_def) blast
qed

text \<open>C11: push_back on a full vector evaluates \<open>capacity_ *= 2\<close> before calling
  reserve. When the runtime cannot allocate the doubled buffer, reserve throws
  \<open>unwind_exception\<close> having changed nothing, but the vector keeps the doubled capacity
  over its old buffer: it no longer satisfies the invariant, and the next push_back, finding
  room, writes outside the buffer.\<close>

theorem push_back_failure_corrupts:
  assumes inv: "vec_inv k (v, w)" and full: "r_length v = w_capacity v" "0 < w_capacity v"
    and mem: "int (mem_avail w) < 2 * w_capacity v"
  shows "push_back k x (v, w) = Some (Inl UnwindException, (v\<lparr>w_capacity := 2 * w_capacity v\<rparr>, w)) \<and>
         \<not> vec_inv k (v\<lparr>w_capacity := 2 * w_capacity v\<rparr>, w) \<and>
         push_back k y (v\<lparr>w_capacity := 2 * w_capacity v\<rparr>, w) =
           Some (Inl Undefined, (v\<lparr>w_capacity := 2 * w_capacity v\<rparr>, w))"
proof -
  let ?v' = "v\<lparr>w_capacity := 2 * w_capacity v\<rparr>"
  from inv have h: "handle_ok k v w" "w_capacity v = buf_len v w" "elt_ok v w" by (simp_all add: vec_inv_def)
  with full have nn: "r_data v \<noteq> R_NilValue" by (auto simp: buf_len_def deref_def)
  with h(1) obtain a ob where f: "r_data v = Addr a" "heap w a = Some ob" by (rule handle_okE)
  have len: "int (length (elts ob)) = w_capacity v" using h(2) f by (simp add: buf_len_def deref_def)
  have "reserve k (w_capacity v * 2) (?v', w) = (Inl UnwindException, (?v', w))"
    using f len mem full by (simp add: reserve_def Rf_xlengthgets_def Rf_allocVector_def rt_simps)
  then have g: "grow k (v, w) = Some (Inl UnwindException, (?v', w))"
    using full by (simp add: grow.simps [of k "(v, w)"] Let_def mult.commute)
  have "\<not> vec_inv k (?v', w)" using h(2) full by (simp add: vec_inv_def buf_len_def)
  moreover have "grow k (?v', w) = Some (Inr (), (?v', w))" using full by (simp add: grow.simps)
  moreover have "(if r_is_altrep ?v' then set_elt (r_data ?v') (r_length ?v') y w
                  else ptr_write (r_data_p ?v') (r_length ?v') y w) = Inl Undefined"
  proof -
    have "buf_len v w \<le> r_length v" using h(2) full by simp
    from write_past_buffer [OF h(1) h(3) this, of y] show ?thesis by (cases "r_is_altrep v") simp_all
  qed
  ultimately show ?thesis using g by (simp add: push_back_def)
qed

theorem push_back_failure_corrupts_witness:
  "push_back doubles 0x4000000000000000 (ex_v, ex_w\<lparr>mem_avail := 0\<rparr>) =
     Some (Inl UnwindException, (ex_v\<lparr>w_capacity := 2\<rparr>, ex_w\<lparr>mem_avail := 0\<rparr>)) \<and>
   \<not> vec_inv doubles (ex_v\<lparr>w_capacity := 2\<rparr>, ex_w\<lparr>mem_avail := 0\<rparr>) \<and>
   push_back doubles 0x4000000000000000 (ex_v\<lparr>w_capacity := 2\<rparr>, ex_w\<lparr>mem_avail := 0\<rparr>) =
     Some (Inl Undefined, (ex_v\<lparr>w_capacity := 2\<rparr>, ex_w\<lparr>mem_avail := 0\<rparr>))"
proof -
  have "vec_inv doubles (ex_v, ex_w\<lparr>mem_avail := 0\<rparr>)" "r_length ex_v = w_capacity ex_v"
    "0 < w_capacity ex_v" "int (mem_avail (ex_w\<lparr>mem_avail := 0\<rparr>)) < 2 * w_capacity ex_v"
    by (simp_all add: vec_inv_def handle_ok_def buf_len_def rt_wf_def ex_v_def ex_w_def doubles_def deref_def)
  from push_back_failure_corrupts [OF this, of "0x4000000000000000" "0x4000000000000000"]
  show ?thesis by (simp add: ex_v_def)
qed

text \<open>C12: reserve(n) with \<open>0 \<le> n < length_\<close> truncates the buffer to \<open>n\<close> slots but
  keeps \<open>length_\<close>: the vector leaves the invariant and at, whose bounds check uses
  \<open>length_\<close>, reads outside the buffer at index \<open>n\<close>.\<close>

theorem reserve_shrink_keeps_length:
  assumes inv: "vec_inv k (v, w)" and n: "0 \<le> n" "n < r_length v"
    and res: "reserve k n (v, w) = (Inr u, (v', w'))"
  shows "r_length v' = r_length v \<and> w_capacity v' = n \<and> buf_len v' w' = n \<and>
         \<not> vec_inv k (v', w') \<and> at k v' n w' = Inl Undefined"
proof -
  from inv have h: "handle_ok k v w" "elt_ok v w" by (simp_all add: vec_inv_def)
  from reserve_handle_ok [OF h(1) res] have h': "handle_ok k v' w'" "buf_len v' w' = n" by auto
  have e': "elt_ok v' w'" by (rule reserve_elt_ok [OF h res])
  from reserve_fields [OF res] have f: "r_length v' = r_length v" "w_capacity v' = n" by simp_all
  from read_past_buffer [OF h' (1) e', of n] h'(2)
  have "(if r_is_altrep v' then get_elt (r_data v') n w' else ptr_read (r_data_p v') n w') = Inl Undefined"
    by simp
  with f n show ?thesis using h'(2) by (simp add: at_def vec_inv_def)
qed

theorem reserve_shrink_keeps_length_witness:
  "case reserve doubles 0 (ex_v, ex_w) of
     (Inr u, (v', w')) \<Rightarrow> r_length v' = 1 \<and> w_capacity v' = 0 \<and> buf_len v' w' = 0 \<and>
                         \<not> vec_inv doubles (v', w') \<and> at doubles v' 0 w' = Inl Undefined
   | _ \<Rightarrow> False"
proof -
  obtain v' w' where res: "reserve doubles 0 (ex_v, ex_w) = (Inr (), (v', w'))"
    by (simp add: reserve_def ex_v_def ex_w_def doubles_def Rf_xlengthgets_def Rf_allocVector_def rt_simps)
  have "0 \<le> (0::int)" "0 < r_length ex_v" by (simp_all add: ex_v_def)
  from reserve_shrink_keeps_length [OF ex_inv this res] res show ?thesis by (simp add: ex_v_def)
qed

text \<open>C13: reserve to a new size replaces the handle by a fresh, materialised object and
  points \<open>data_p_\<close> at its buffer, but leaves \<open>is_altrep_\<close> as it was: a vector built
  over an ALTREP object keeps the flag set while its handle is no longer ALTREP and its
  \<open>data_p_\<close> is non-null.\<close>

theorem reserve_keeps_altrep_flag:
  assumes inv: "vec_inv k (v, w)" and alt: "r_is_altrep v" and n: "n \<noteq> buf_len v w"
    and res: "reserve k n (v, w) = (Inr u, (v', w'))"
  shows "r_is_altrep v' \<and> r_data_p v' = Some (r_data v') \<and> ALTREP (r_data v') w' = Inr False"
proof -
  from inv have "handle_ok k v w" by (simp add: vec_inv_def)
  from reserve_moves [OF this n res] reserve_fields [OF res] alt show ?thesis by blast
qed

theorem reserve_keeps_altrep_flag_witness:
  "case reserve doubles 2 (ex_v\<lparr>r_is_altrep := True, r_data_p := None\<rparr>,
          ex_w\<lparr>heap := [0 \<mapsto> \<lparr>otype = REALSXP, alt = True, elts = [0x3FF0000000000000], names = None\<rparr>]\<rparr>) of
     (Inr u, (v', w')) \<Rightarrow> r_is_altrep v' \<and> r_data_p v' = Some (r_data v') \<and> ALTREP (r_data v') w' = Inr False
   | _ \<Rightarrow> False"
proof -
  let ?v = "ex_v\<lparr>r_is_altrep := True, r_data_p := None\<rparr>"
  let ?w = "ex_w\<lparr>heap := [0 \<mapsto> \<lparr>otype = REALSXP, alt = True, elts = [0x3FF0000000000000], names = None\<rparr>]\<rparr>"
  obtain v' w' where res: "reserve doubles 2 (?v, ?w) = (Inr (), (v', w'))"
    by (simp add: reserve_def ex_v_def ex_w_def doubles_def Rf_xlengthgets_def Rf_allocVector_def rt_simps)
  have "vec_inv doubles (?v, ?w)" "r_is_altrep ?v" "2 \<noteq> buf_len ?v ?w"
    by (simp_all add: vec_inv_def handle_ok_def buf_len_def rt_wf_def ex_v_def ex_w_def doubles_def deref_def
                      elt_ok_def elt_fails_def)
  from reserve_keeps_altrep_flag [OF this res] res show ?thesis by simp
qed

theorem push_back_succeeds_witness:
  "\<exists>s'. push_back doubles 0x4000000000000000 (ex_v, ex_w) = Some (Inr (), s')"
  using push_back_succeeds [OF ex_inv] by (simp add: ex_v_def ex_w_def)

theorem push_back_returns_witness:
  "\<exists>r. push_back doubles 0x4000000000000000 (ex_v, ex_w) = Some r"
  using push_back_returns [of ex_v] by (simp add: ex_v_def)

end
