(* ===== verification/Lifecycle.thy ===== *)
theory Lifecycle
  imports Vector
begin

text \<open>
  The life of one writable vector as a state machine. A step is one call a client makes
  on it (\<open>push_back\<close>, \<open>reserve\<close> to at least the capacity, an assignment through
  the proxy of \<open>at\<close>) or a garbage collection the runtime may run between calls. A
  reserve that throws is a step too (the client catches the exception); a push_back that
  throws is not, since it leaves the vector broken (Vector.push_back_failure_corrupts).
  The reachable states start from the default-constructed vector over a runtime whose
  preserve list is empty, the counting mock of the specification. The invariant
  \<open>vec_inv\<close> holds in every reachable state; in particular exactly one handle, the
  vector's, is protected after every call. A run is a finite sequence of steps; the
  refinement (Refinement.thy) and the memory bound (Growth.thy) are stated over runs.
\<close>

datatype 'e vop =
    PushBack 'e
  | Reserve r_xlen_t
  | Assign r_xlen_t 'e
  | Collect "sexp list"

inductive vstep :: "'e kind \<Rightarrow> 'e vstate \<Rightarrow> 'e vop \<Rightarrow> 'e vstate \<Rightarrow> bool" for k where
  push: "push_back k x s = Some (Inr u, s') \<Longrightarrow> vstep k s (PushBack x) s'"
| reserve: "w_capacity (fst s) \<le> n \<Longrightarrow> reserve k n s = (r, s') \<Longrightarrow> vstep k s (Reserve n) s'"
| assign: "w_at k v pos = Inr px \<Longrightarrow> proxy_assign px x w = Inr w' \<Longrightarrow>
           vstep k (v, w) (Assign pos x) (v, w')"
| collect: "vstep k (v, w) (Collect roots) (v, R_gc roots w)"

inductive reachable :: "'e kind \<Rightarrow> 'e vstate \<Rightarrow> bool" for k where
  init: "rt_wf w \<Longrightarrow> preserved w = [] \<Longrightarrow> reachable k (empty_wvector, w)"
| step: "reachable k s \<Longrightarrow> vstep k s op s' \<Longrightarrow> reachable k s'"

text \<open>A run: a sequence of client calls and collections, each a step.\<close>

inductive runs :: "'e kind \<Rightarrow> 'e vstate \<Rightarrow> 'e vop list \<Rightarrow> 'e vstate \<Rightarrow> bool" for k where
  nil: "runs k s [] s"
| cons: "vstep k s op s1 \<Longrightarrow> runs k s1 ops s2 \<Longrightarrow> runs k s (op # ops) s2"

text \<open>The destructor of \<open>writable::vector\<close> (vector.hpp, not among the sources):
  \<open>release_protect(protect_)\<close>, as the specification says destruction releases the
  protection token.\<close>

definition vector_dtor :: "wvector \<Rightarrow> 'e rstate \<Rightarrow> 'e rstate" where
  "vector_dtor v w = release_protect (r_protect v) w"

text \<open>An empty runtime with room for 16 elements.\<close>

definition w_init :: "64 word rstate" where
  "w_init = \<lparr>heap = Map.empty, next_addr = 0, preserved = [], next_cell = 0, mem_avail = 16,
             region_calls = 0,
             region_errors = {}, elt_errors = {}\<rparr>"

inductive_cases vstep_pushE: "vstep k s (PushBack x) s'"
inductive_cases vstep_reserveE: "vstep k s (Reserve n) s'"
inductive_cases vstep_assignE: "vstep k s (Assign pos x) s'"
inductive_cases vstep_collectE: "vstep k s (Collect roots) s'"
inductive_cases runs_consE: "runs k s (op # ops) s'"
inductive_cases runs_nilE: "runs k s [] s'"

lemma vec_inv_empty: "rt_wf w \<Longrightarrow> preserved w = [] \<Longrightarrow> vec_inv k (empty_wvector, w)"
  by (simp add: vec_inv_def handle_ok_def buf_len_def empty_wvector_def deref_def)

lemma vstep_vec_inv:
  assumes "vstep k s op s'" "vec_inv k s"
  shows "vec_inv k s'"
  using assms
proof (induction rule: vstep.induct)
  case (push x s u s')
  then show ?case by (blast dest: push_back_vec_inv)
next
  case (reserve s n r s')
  obtain v w where s: "s = (v, w)" by (cases s)
  obtain v' w' where s': "s' = (v', w')" by (cases s')
  show ?case
  proof (cases r)
    case (Inl e)
    with reserve s s' show ?thesis
      using reserve_failure [of k v w n e s'] by (simp add: vec_inv_def)
  next
    case (Inr u)
    from reserve.prems s have h: "handle_ok k v w" "0 \<le> r_length v" "r_length v \<le> buf_len v w"
      "buf_len v w \<le> n"
      using reserve.hyps(1) by (auto simp: vec_inv_def)
    from reserve_success [OF h] reserve.hyps(2) Inr s s' have
      "handle_ok k v' w' \<and> buf_len v' w' = n \<and> w_capacity v' = n \<and> r_length v' = r_length v"
      by auto
    moreover have "elt_ok v' w'"
      using reserve_elt_ok [OF h(1)] reserve.prems reserve.hyps(2) Inr s s' by (simp add: vec_inv_def)
    ultimately show ?thesis using h s' by (auto simp: vec_inv_def)
  qed
next
  case (assign v pos px x w w')
  then have "0 \<le> pos" "pos < r_length v" "px = w_subscript v pos"
    by (auto simp: w_at_def split: if_splits)
  with assign proxy_assign_slot [of k v w pos x] show ?case by auto
next
  case (collect v w roots)
  then show ?case by (blast dest: vec_inv_gc)
qed

lemma vstep_altrep:
  assumes "vstep k s op s'"
  shows "r_is_altrep (fst s') = r_is_altrep (fst s)"
  using assms
proof (induction rule: vstep.induct)
  case (push x s u s')
  then show ?case by (rule push_back_altrep)
next
  case (reserve s n r s')
  then show ?case using reserve_fields [of k n "fst s" "snd s" r "fst s'" "snd s'"] by simp
qed simp_all

lemma runs_altrep: "runs k s ops s' \<Longrightarrow> r_is_altrep (fst s') = r_is_altrep (fst s)"
  by (induction rule: runs.induct) (simp_all add: vstep_altrep)

lemma reachable_vec_inv: "reachable k s \<Longrightarrow> vec_inv k s"
proof (induction rule: reachable.induct)
  case (init w)
  then show ?case by (rule vec_inv_empty)
next
  case (step s op s')
  then show ?case by (blast intro: vstep_vec_inv)
qed

text \<open>One push of 1.0 onto the empty vector over \<open>w_init\<close>: it succeeds, the result is
  reachable, and the vector holds a handle protected by cell 0.\<close>

lemma ex_push:
  "\<exists>v' w'. push_back doubles 0x3FF0000000000000 (empty_wvector, w_init) = Some (Inr (), (v', w')) \<and>
     reachable doubles (v', w') \<and> r_data v' \<noteq> R_NilValue \<and> r_protect v' = Cell 0"
proof -
  obtain v' w' where pb: "push_back doubles 0x3FF0000000000000 (empty_wvector, w_init) =
      Some (Inr (), (v', w'))"
    by (simp add: push_back_def grow.simps reserve_def empty_wvector_def w_init_def doubles_def
                  Rf_allocVector_def rt_simps)
  have "reachable doubles (empty_wvector, w_init)"
    by (rule reachable.init) (simp_all add: w_init_def rt_wf_def)
  then have "reachable doubles (v', w')"
    using pb by (blast intro: reachable.step vstep.push)
  moreover have "r_data v' \<noteq> R_NilValue \<and> r_protect v' = Cell 0"
    using pb by (auto simp: push_back_def grow.simps reserve_def empty_wvector_def w_init_def
                            doubles_def Rf_allocVector_def rt_simps)
  ultimately show ?thesis using pb by blast
qed

text \<open>C2: In every reachable state of a writable vector, once it holds a handle, that
  handle is live and exactly one preserve-list cell is registered: the vector's own
  protect_ cell, protecting that handle (no leaked protection of an old handle, no
  unprotected handle).\<close>

theorem protection_exactly_one:
  assumes "reachable k (v, w)" "r_data v \<noteq> R_NilValue"
  shows "\<exists>c ob. r_protect v = Cell c \<and> preserved w = [(c, r_data v)] \<and>
                deref (r_data v) w = Inr ob \<and> protect_count (r_data v) w = 1"
proof -
  from reachable_vec_inv [OF assms(1)] have "handle_ok k v w" by (simp add: vec_inv_def)
  from this assms(2) obtain a ob c where "r_data v = Addr a" "heap w a = Some ob"
    "r_protect v = Cell c" "preserved w = [(c, Addr a)]"
    by (rule handle_okE)
  then show ?thesis by (simp add: protect_count_def deref_def)
qed

theorem protection_exactly_one_witness:
  "case push_back doubles 0x3FF0000000000000 (empty_wvector, w_init) of
     Some (Inr u, (v', w')) \<Rightarrow> r_protect v' = Cell 0 \<and> preserved w' = [(0, r_data v')]
   | _ \<Rightarrow> False"
proof -
  from ex_push obtain v' w' where pb: "push_back doubles 0x3FF0000000000000 (empty_wvector, w_init) =
      Some (Inr (), (v', w'))" and r: "reachable doubles (v', w')"
    and nn: "r_data v' \<noteq> R_NilValue" and c0: "r_protect v' = Cell 0" by blast
  from protection_exactly_one [OF r nn] pb c0 show ?thesis by auto
qed

lemma handle_ok_dtor:
  assumes "handle_ok k v w"
  shows "preserved (vector_dtor v w) = [] \<and> heap (vector_dtor v w) = heap w"
proof (cases "r_data v = R_NilValue")
  case True
  with assms show ?thesis by (simp add: handle_ok_def vector_dtor_def release_protect_def)
next
  case False
  with assms obtain a ob c where "r_protect v = Cell c" "preserved w = [(c, Addr a)]"
    by (rule handle_okE)
  then show ?thesis by (simp add: vector_dtor_def release_protect_def)
qed

end
