(* ===== verification/Constructors.thy ===== *)
theory Constructors
  imports Lifecycle
begin

text \<open>
  The writable constructors of doubles.hpp: from a literal list
  (\<open>writable::vector(std::initializer_list<double>)\<close>, via \<open>as_sexp\<close>) and from a
  list of named arguments (\<open>writable::vector(std::initializer_list<named_arg>)\<close>). The
  named constructor allocates the data, protects it, attaches a names vector and copies
  the first element of each argument, all under \<open>unwind_protect\<close>, releasing the
  protection when an \<open>unwind_exception\<close> escapes, and only then. An argument is usable
  when its value is a live vector of the constructor's type with at least one element
  whose ALTREP element method, if any, answers. \<open>named_ctor_setup\<close> carries the
  constructor up to its population loop; the loop is then followed over a prefix of
  usable arguments (\<open>named_fill_ok\<close>, \<open>named_fill_append\<close>).
\<close>

definition arg_ok :: "'e kind \<Rightarrow> 'e rstate \<Rightarrow> named_arg \<Rightarrow> bool" where
  "arg_ok k w x = (case deref (arg_value x) w of
      Inr ob \<Rightarrow> otype ob = ktype k \<and> elts ob \<noteq> [] \<and> \<not> (alt ob \<and> elt_fails (arg_value x) w)
    | Inl e \<Rightarrow> False)"

definition arg_first :: "'e rstate \<Rightarrow> named_arg \<Rightarrow> 'e" where
  "arg_first w x = (case deref (arg_value x) w of Inr ob \<Rightarrow> hd (elts ob) | Inl e \<Rightarrow> undefined)"

text \<open>Two named arguments \<open>"a" = 1.0\<close> and \<open>"b" = 2.0\<close>, already allocated.\<close>

definition ex_named_w :: "64 word rstate" where
  "ex_named_w = \<lparr>heap = [0 \<mapsto> \<lparr>otype = REALSXP, alt = False, elts = [0x3FF0000000000000], names = None\<rparr>,
                         1 \<mapsto> \<lparr>otype = REALSXP, alt = False, elts = [0x4000000000000000], names = None\<rparr>],
                 next_addr = 2, preserved = [], next_cell = 0, mem_avail = 8, region_calls = 0,
                 region_errors = {}, elt_errors = {}\<rparr>"

definition ex_named_args :: "named_arg list" where
  "ex_named_args = [\<lparr>arg_name = ''a'', arg_value = Addr 0\<rparr>, \<lparr>arg_name = ''b'', arg_value = Addr 1\<rparr>]"

text \<open>A named argument whose value is an integer vector.\<close>

definition ex_bad_w :: "64 word rstate" where
  "ex_bad_w = \<lparr>heap = [0 \<mapsto> \<lparr>otype = INTSXP, alt = False, elts = [1], names = None\<rparr>],
                next_addr = 1, preserved = [], next_cell = 0, mem_avail = 8, region_calls = 0,
                region_errors = {}, elt_errors = {}\<rparr>"

text \<open>A runtime holding one empty double vector at address 0.\<close>

text \<open>Three allocated vectors: a double vector holding 1.0, an integer vector, and an
  empty double vector.\<close>

definition ex_mixed_w :: "64 word rstate" where
  "ex_mixed_w = \<lparr>heap = [0 \<mapsto> \<lparr>otype = REALSXP, alt = False, elts = [0x3FF0000000000000], names = None\<rparr>,
                         1 \<mapsto> \<lparr>otype = INTSXP, alt = False, elts = [1], names = None\<rparr>,
                         2 \<mapsto> \<lparr>otype = REALSXP, alt = False, elts = [], names = None\<rparr>],
                 next_addr = 3, preserved = [], next_cell = 0, mem_avail = 8, region_calls = 0,
                 region_errors = {}, elt_errors = {}\<rparr>"

lemma arg_read:
  assumes "arg_ok k w x"
  shows "\<exists>tmp. rvector_ctor k (arg_value x) w = Inr tmp \<and> subscript tmp 0 w = Inr (arg_first w x)"
proof -
  from assms obtain b ob where b: "arg_value x = Addr b" "heap w b = Some ob" "otype ob = ktype k"
    "elts ob \<noteq> []" "\<not> (alt ob \<and> b \<in> elt_errors w)"
    by (auto simp: arg_ok_def deref_def elt_fails_def split: sexp.splits option.splits sum.splits)
  let ?tmp = "\<lparr>r_data = Addr b, r_protect = NoToken, r_is_altrep = alt ob,
               r_data_p = (if alt ob then None else Some (Addr b)), r_length = int (length (elts ob))\<rparr>"
  have "rvector_ctor k (arg_value x) w = Inr ?tmp"
    using b by (simp add: rvector_ctor_def valid_type_def get_p_def rt_simps)
  moreover have "subscript ?tmp 0 w = Inr (arg_first w x)"
    using b by (simp add: subscript_def arg_first_def rt_simps hd_conv_nth)
  ultimately show ?thesis by blast
qed

lemma arg_ok_put_obj:
  "arg_ok k w x \<Longrightarrow> arg_value x \<noteq> Addr a \<Longrightarrow> arg_ok k (put_obj (Addr a) ob w) x \<and>
     arg_first (put_obj (Addr a) ob w) x = arg_first w x"
  by (auto simp: arg_ok_def arg_first_def split: sum.splits)

lemma named_fill_ok:
  assumes "r_data v = Addr a" "r_data_p v = Some (Addr a)" "heap w a = Some ob" "names ob = Some ns"
    "0 \<le> i" "nat i + length il \<le> length (elts ob)" "nat i + length il \<le> length ns"
    "\<forall>x \<in> set il. arg_ok k w x \<and> arg_value x \<noteq> Addr a"
  shows "named_fill k il i (v, w) =
     (Inr (), (v, put_obj (Addr a)
        (ob\<lparr>elts := take (nat i) (elts ob) @ map (arg_first w) il @ drop (nat i + length il) (elts ob),
             names := Some (take (nat i) ns @ map arg_name il @ drop (nat i + length il) ns)\<rparr>) w))"
  using assms
proof (induction il arbitrary: i w ob ns)
  case Nil
  then show ?case by (simp add: put_obj_def map_upd_triv)
next
  case (Cons x il)
  from Cons.prems(8) have ok: "arg_ok k w x" "arg_value x \<noteq> Addr a" by auto
  from arg_read [OF ok(1)] obtain tmp where
    t: "rvector_ctor k (arg_value x) w = Inr tmp" "subscript tmp 0 w = Inr (arg_first w x)" by blast
  let ?ob1 = "ob\<lparr>elts := (elts ob)[nat i := arg_first w x]\<rparr>"
  let ?ob2 = "?ob1\<lparr>names := Some (ns[nat i := arg_name x])\<rparr>"
  let ?w2 = "put_obj (Addr a) ?ob2 w"
  have bnd: "i < int (length (elts ob))" "i < int (length ns)"
    using Cons.prems(5,6,7) by auto
  have step: "named_fill k (x # il) i (v, w) = named_fill k il (i + 1) (v, ?w2)"
    using Cons.prems t bnd by (simp add: ptr_write_def buf_set_def set_elt_def buf_set_def elt_fails_def set_name_elt_def deref_def)
  have args: "\<forall>y \<in> set il. arg_ok k ?w2 y \<and> arg_value y \<noteq> Addr a"
    and firsts: "map (arg_first ?w2) il = map (arg_first w) il"
    using Cons.prems(8) by (auto simp: arg_ok_def arg_first_def split: sum.split)
  have "named_fill k il (i + 1) (v, ?w2) =
     (Inr (), (v, put_obj (Addr a)
        (?ob2\<lparr>elts := take (nat (i + 1)) (elts ?ob2) @ map (arg_first ?w2) il @ drop (nat (i + 1) + length il) (elts ?ob2),
              names := Some (take (nat (i + 1)) (ns[nat i := arg_name x]) @ map arg_name il @
                             drop (nat (i + 1) + length il) (ns[nat i := arg_name x]))\<rparr>) ?w2))"
    using Cons.prems args by (intro Cons.IH) auto
  with step firsts Cons.prems show ?case
    by (simp add: nat_add_distrib take_update_last)
qed

lemma arg_ok_transfer:
  assumes "\<forall>y. y \<noteq> Addr a \<longrightarrow> deref y w' = deref y w" "\<forall>y. elt_fails y w' = elt_fails y w"
    "heap w a = None" "arg_ok k w x"
  shows "arg_ok k w' x \<and> arg_value x \<noteq> Addr a \<and> arg_first w' x = arg_first w x"
proof -
  have ne: "arg_value x \<noteq> Addr a" using assms(3,4) by (auto simp: arg_ok_def deref_def)
  with assms(1) have "deref (arg_value x) w' = deref (arg_value x) w" by simp
  with ne assms(2,4) show ?thesis by (auto simp: arg_ok_def arg_first_def split: sum.splits)
qed

lemma named_fill_append:
  "named_fill k (pre @ post) i s =
     (case named_fill k pre i s of (Inr u, s') \<Rightarrow> named_fill k post (i + int (length pre)) s' | r \<Rightarrow> r)"
  by (induction k pre i s rule: named_fill.induct) (auto simp: algebra_simps split: sum.splits prod.splits)

text \<open>The named constructor up to its population loop: the allocation of the data at the
  next free address, the protection by the next cell, the fresh names vector.\<close>

lemma named_ctor_setup:
  assumes wf: "rt_wf w" "preserved w = []" and mem: "2 * int (length il) \<le> int (mem_avail w)"
  obtains v1 w3 where
    "named_ctor k il w = (case named_fill k il 0 (v1, w3) of
         (Inl RError, (v2, w2)) \<Rightarrow> (Inl UnwindException, release_protect (r_protect v2) w2)
       | (Inl UnwindException, (v2, w2)) \<Rightarrow> (Inl UnwindException, release_protect (r_protect v2) w2)
       | (Inl e, (v2, w2)) \<Rightarrow> (Inl e, w2)
       | (Inr u, (v2, w2)) \<Rightarrow> (Inr v2, w2))"
    "v1 = \<lparr>r_data = Addr (next_addr w), r_protect = Cell (next_cell w), r_is_altrep = False,
           r_data_p = Some (Addr (next_addr w)), r_length = int (length il), w_capacity = int (length il)\<rparr>"
    "heap w3 (next_addr w) = Some \<lparr>otype = ktype k, alt = False, elts = replicate (length il) (na k),
                                  names = Some (replicate (length il) [])\<rparr>"
    "preserved w3 = [(next_cell w, Addr (next_addr w))]"
    "\<forall>y. y \<noteq> Addr (next_addr w) \<longrightarrow> deref y w3 = deref y w"
    "\<forall>y. elt_fails y w3 = elt_fails y w"
    "heap w (next_addr w) = None" "handle_ok k v1 w3"
proof -
  define n where "n = length il"
  define a where "a = next_addr w"
  define ob where "ob = \<lparr>otype = ktype k, alt = False, elts = replicate n (na k), names = None\<rparr>"
  define w1 where "w1 = w\<lparr>heap := (heap w)(a \<mapsto> ob), next_addr := Suc a, mem_avail := mem_avail w - n\<rparr>"
  have fresh: "heap w a = None" using wf by (simp add: rt_wf_def a_def)
  have alloc: "safe (Rf_allocVector (ktype k) (int n) (na k)) w = (Inr (Addr a), w1)"
    using mem by (simp add: Rf_allocVector_def unwind_protect_def a_def ob_def w1_def n_def)
  have m2: "\<not> mem_avail w - n < n" using mem by (simp add: n_def)
  have rv: "rvector_ctor k (Addr a) w1 = Inr \<lparr>r_data = Addr a, r_protect = NoToken, r_is_altrep = False,
            r_data_p = Some (Addr a), r_length = int n\<rparr>"
    using rvector_ctor_fresh [of w1 a ob k] by (simp add: w1_def ob_def)
  define c where "c = next_cell w"
  define v1 where "v1 = \<lparr>r_data = Addr a, r_protect = Cell c, r_is_altrep = False, r_data_p = Some (Addr a),
             r_length = int n, w_capacity = int n\<rparr>"
  define ob3 where "ob3 = ob\<lparr>names := Some (replicate n [])\<rparr>"
  define w3 where "w3 = put_obj (Addr a) ob3
                     (w1\<lparr>preserved := [(c, Addr a)], next_cell := Suc c, mem_avail := mem_avail w - n - n\<rparr>)"
  have body1: "named_body k il (to_writable \<lparr>r_data = Addr a, r_protect = NoToken, r_is_altrep = False,
            r_data_p = Some (Addr a), r_length = int n\<rparr> (int n), w1) = named_fill k il 0 (v1, w3)"
    using mem wf m2 by (simp add: Let_def named_body_def protect_sexp_def set_names_attr_def to_writable_def
                    rvector.defs wvector.defs v1_def w3_def ob3_def c_def w1_def deref_def n_def)
  show thesis
  proof (rule that)
    show "named_ctor k il w = (case named_fill k il 0 (v1, w3) of
         (Inl RError, (v2, w2)) \<Rightarrow> (Inl UnwindException, release_protect (r_protect v2) w2)
       | (Inl UnwindException, (v2, w2)) \<Rightarrow> (Inl UnwindException, release_protect (r_protect v2) w2)
       | (Inl e, (v2, w2)) \<Rightarrow> (Inl e, w2)
       | (Inr u, (v2, w2)) \<Rightarrow> (Inr v2, w2))"
      using alloc rv body1
      by (simp add: named_ctor_def unwind_protect_def n_def split: prod.split sum.split error.split)
    show "\<forall>y. y \<noteq> Addr (next_addr w) \<longrightarrow> deref y w3 = deref y w"
      by (auto simp: w3_def w1_def a_def deref_def put_obj_def split: sexp.splits)
    show "\<forall>y. elt_fails y w3 = elt_fails y w"
      by (simp add: elt_fails_def w3_def w1_def split: sexp.split)
    show "handle_ok k v1 w3"
      using wf by (auto simp: handle_ok_def rt_wf_def deref_def put_obj_def v1_def ob3_def ob_def w3_def
                              w1_def a_def c_def)
  qed (simp_all add: v1_def a_def c_def n_def w3_def ob3_def ob_def w1_def fresh [unfolded a_def])
qed

lemma named_ctor_ok:
  assumes wf: "rt_wf w" "preserved w = []" and mem: "2 * int (length il) \<le> int (mem_avail w)"
    and args: "\<forall>x \<in> set il. arg_ok k w x"
  shows "\<exists>v w'. named_ctor k il w = (Inr v, w') \<and> vec_inv k (v, w') \<and>
                contents (v, w') = map (arg_first w) il \<and>
                map_sum id names (deref (r_data v) w') = Inr (Some (map arg_name il))"
proof -
  obtain v1 w3 where ctor: "named_ctor k il w = (case named_fill k il 0 (v1, w3) of
         (Inl RError, (v2, w2)) \<Rightarrow> (Inl UnwindException, release_protect (r_protect v2) w2)
       | (Inl UnwindException, (v2, w2)) \<Rightarrow> (Inl UnwindException, release_protect (r_protect v2) w2)
       | (Inl e, (v2, w2)) \<Rightarrow> (Inl e, w2)
       | (Inr u, (v2, w2)) \<Rightarrow> (Inr v2, w2))"
    and v1: "v1 = \<lparr>r_data = Addr (next_addr w), r_protect = Cell (next_cell w), r_is_altrep = False,
           r_data_p = Some (Addr (next_addr w)), r_length = int (length il), w_capacity = int (length il)\<rparr>"
    and h3: "heap w3 (next_addr w) = Some \<lparr>otype = ktype k, alt = False, elts = replicate (length il) (na k),
                                  names = Some (replicate (length il) [])\<rparr>"
    and d3: "\<forall>y. y \<noteq> Addr (next_addr w) \<longrightarrow> deref y w3 = deref y w"
    and e3: "\<forall>y. elt_fails y w3 = elt_fails y w"
    and fresh: "heap w (next_addr w) = None" and hok: "handle_ok k v1 w3"
    by (rule named_ctor_setup [OF wf mem])
  let ?a = "next_addr w"
  let ?ob3 = "\<lparr>otype = ktype k, alt = False, elts = replicate (length il) (na k),
               names = Some (replicate (length il) [])\<rparr>"
  from arg_ok_transfer [OF d3 e3 fresh] args
  have args3: "\<forall>x \<in> set il. arg_ok k w3 x \<and> arg_value x \<noteq> Addr ?a"
    and firsts: "map (arg_first w3) il = map (arg_first w) il" by auto
  define ob4 where "ob4 = ?ob3\<lparr>elts := map (arg_first w) il, names := Some (map arg_name il)\<rparr>"
  have fill: "named_fill k il 0 (v1, w3) = (Inr (), (v1, put_obj (Addr ?a) ob4 w3))"
    using named_fill_ok [of v1 ?a w3 ?ob3 "replicate (length il) []" 0 il k] h3 args3 firsts v1
    by (simp add: ob4_def)
  have "handle_ok k v1 (put_obj (Addr ?a) ob4 w3)"
    by (rule handle_ok_put_obj [OF hok _ h3]) (simp_all add: v1 ob4_def)
  then have "vec_inv k (v1, put_obj (Addr ?a) ob4 w3)"
    by (simp add: vec_inv_def buf_len_def elt_ok_def deref_def put_obj_def v1 ob4_def)
  moreover have "contents (v1, put_obj (Addr ?a) ob4 w3) = map (arg_first w) il"
    by (simp add: contents_def deref_def put_obj_def v1 ob4_def)
  moreover have "map_sum id names (deref (r_data v1) (put_obj (Addr ?a) ob4 w3)) = Inr (Some (map arg_name il))"
    by (simp add: deref_def put_obj_def v1 ob4_def)
  ultimately show ?thesis using ctor fill by auto
qed

text \<open>When the population loop stops at the argument \<open>x\<close>, after a prefix of usable
  arguments, with an exception other than an R error or \<open>unwind_exception\<close>, the
  handler does not run: the exception leaves the constructor with the fresh data still
  registered in the preserve list.\<close>

lemma named_ctor_arg_fails:
  assumes wf: "rt_wf w" "preserved w = []" and mem: "2 * int (length il) \<le> int (mem_avail w)"
    and il: "il = pre @ x # post" and pre: "\<forall>y \<in> set pre. arg_ok k w y"
    and fx: "\<And>v w'. \<forall>y. y \<noteq> Addr (next_addr w) \<longrightarrow> deref y w' = deref y w \<Longrightarrow>
               \<forall>y. elt_fails y w' = elt_fails y w \<Longrightarrow>
               named_fill k (x # post) (int (length pre)) (v, w') = (Inl e, (v, w'))"
    and e: "e \<noteq> RError" "e \<noteq> UnwindException"
  shows "\<exists>w'. named_ctor k il w = (Inl e, w') \<and> preserved w' = [(next_cell w, Addr (next_addr w))]"
proof -
  obtain v1 w3 where ctor: "named_ctor k il w = (case named_fill k il 0 (v1, w3) of
         (Inl RError, (v2, w2)) \<Rightarrow> (Inl UnwindException, release_protect (r_protect v2) w2)
       | (Inl UnwindException, (v2, w2)) \<Rightarrow> (Inl UnwindException, release_protect (r_protect v2) w2)
       | (Inl e, (v2, w2)) \<Rightarrow> (Inl e, w2)
       | (Inr u, (v2, w2)) \<Rightarrow> (Inr v2, w2))"
    and v1: "v1 = \<lparr>r_data = Addr (next_addr w), r_protect = Cell (next_cell w), r_is_altrep = False,
           r_data_p = Some (Addr (next_addr w)), r_length = int (length il), w_capacity = int (length il)\<rparr>"
    and h3: "heap w3 (next_addr w) = Some \<lparr>otype = ktype k, alt = False, elts = replicate (length il) (na k),
                                  names = Some (replicate (length il) [])\<rparr>"
    and p3: "preserved w3 = [(next_cell w, Addr (next_addr w))]"
    and d3: "\<forall>y. y \<noteq> Addr (next_addr w) \<longrightarrow> deref y w3 = deref y w"
    and e3: "\<forall>y. elt_fails y w3 = elt_fails y w"
    and fresh: "heap w (next_addr w) = None"
    by (rule named_ctor_setup [OF wf mem])
  let ?a = "next_addr w"
  let ?ob3 = "\<lparr>otype = ktype k, alt = False, elts = replicate (length il) (na k),
               names = Some (replicate (length il) [])\<rparr>"
  from arg_ok_transfer [OF d3 e3 fresh] pre
  have pre3: "\<forall>y \<in> set pre. arg_ok k w3 y \<and> arg_value y \<noteq> Addr ?a" by auto
  define wp where "wp = put_obj (Addr ?a)
        (?ob3\<lparr>elts := take 0 (elts ?ob3) @ map (arg_first w3) pre @ drop (length pre) (elts ?ob3),
               names := Some (take 0 (replicate (length il) []) @ map arg_name pre @
                              drop (length pre) (replicate (length il) []))\<rparr>) w3"
  have fp: "named_fill k pre 0 (v1, w3) = (Inr (), (v1, wp))"
    using named_fill_ok [of v1 ?a w3 ?ob3 "replicate (length il) []" 0 pre k] h3 pre3 il v1
    by (simp add: wp_def)
  have dp: "\<forall>y. y \<noteq> Addr ?a \<longrightarrow> deref y wp = deref y w" using d3 by (simp add: wp_def)
  have ep: "\<forall>y. elt_fails y wp = elt_fails y w" using e3 by (simp add: wp_def)
  have "named_fill k il 0 (v1, w3) = (Inl e, (v1, wp))"
    using fp fx [OF dp ep, of v1] il by (simp add: named_fill_append)
  moreover have "preserved wp = [(next_cell w, Addr ?a)]" using p3 by (simp add: wp_def put_obj_def)
  ultimately show ?thesis using ctor e by (cases e) auto
qed

text \<open>C15: Constructing from named arguments whose values are live doubles vectors with at
  least one element (whose ALTREP element method, if any, answers) succeeds when the runtime has room for the data and the names: the
  vector satisfies the invariant (its data protected by exactly one cell), holds the first
  element of each argument in order, and carries the names in the same order.\<close>

theorem named_ctor_builds:
  assumes wf: "rt_wf w" "preserved w = []" and mem: "2 * int (length il) \<le> int (mem_avail w)"
    and args: "\<forall>x \<in> set il. arg_ok k w x"
  shows "\<exists>v w'. named_ctor k il w = (Inr v, w') \<and> vec_inv k (v, w') \<and>
                contents (v, w') = map (arg_first w) il \<and>
                map_sum id names (deref (r_data v) w') = Inr (Some (map arg_name il))"
  using named_ctor_ok [OF wf mem args] .

text \<open>C14: Constructing from a literal list succeeds when the runtime has room for it, and
  the vector has the list's length and reads back each element at its index.\<close>

theorem il_ctor_reads_back:
  assumes wf: "rt_wf w" and mem: "int (length xs) \<le> int (mem_avail w)"
  shows "\<exists>v w'. il_ctor k xs w = (Inr v, w') \<and> r_length v = int (length xs) \<and>
                w_capacity v = int (length xs) \<and>
                (\<forall>i. 0 \<le> i \<and> i < int (length xs) \<longrightarrow> at k v i w' = Inr (xs ! nat i))"
proof -
  define a where "a = next_addr w"
  define ob where "ob = \<lparr>otype = ktype k, alt = False, elts = replicate (length xs) (na k), names = None\<rparr>"
  define w1 where "w1 = w\<lparr>heap := (heap w)(a \<mapsto> ob), next_addr := Suc a, mem_avail := mem_avail w - length xs\<rparr>"
  define w2 where "w2 = put_obj (Addr a) (ob\<lparr>elts := xs\<rparr>) w1"
  have as: "as_sexp k xs w = (Inr (Addr a), w2)"
    using mem by (simp add: as_sexp_def Rf_allocVector_def unwind_protect_def deref_def a_def ob_def w1_def w2_def)
  have rv: "rvector_ctor k (Addr a) w2 = Inr \<lparr>r_data = Addr a, r_protect = NoToken, r_is_altrep = False,
            r_data_p = Some (Addr a), r_length = int (length xs)\<rparr>"
    using rvector_ctor_fresh [of w2 a "ob\<lparr>elts := xs\<rparr>" k] by (simp add: w2_def ob_def)
  let ?v = "to_writable \<lparr>r_data = Addr a, r_protect = NoToken, r_is_altrep = False,
            r_data_p = Some (Addr a), r_length = int (length xs)\<rparr> (int (length xs))"
  have ctor: "il_ctor k xs w = (Inr ?v, w2)"
    using as rv by (simp add: il_ctor_def)
  have "\<forall>i. 0 \<le> i \<and> i < int (length xs) \<longrightarrow> at k ?v i w2 = Inr (xs ! nat i)"
    by (auto simp: at_def to_writable_def rvector.defs wvector.defs rt_simps w2_def)
  with ctor show ?thesis by (auto simp: to_writable_def rvector.defs wvector.defs)
qed

theorem il_ctor_reads_back_witness:
  "\<exists>v w'. il_ctor doubles [0x3FF0000000000000, 0x4000000000000000, 0x4008000000000000] w_init = (Inr v, w') \<and>
     r_length v = 3 \<and> at doubles v 0 w' = Inr 0x3FF0000000000000 \<and>
     at doubles v 1 w' = Inr 0x4000000000000000 \<and> at doubles v 2 w' = Inr 0x4008000000000000"
proof -
  have "rt_wf w_init" "int (length [0x3FF0000000000000, 0x4000000000000000, 0x4008000000000000 :: 64 word])
        \<le> int (mem_avail w_init)"
    by (simp_all add: rt_wf_def w_init_def)
  from il_ctor_reads_back [OF this, of doubles] show ?thesis by auto
qed

theorem named_ctor_builds_witness:
  "\<exists>v w'. named_ctor doubles ex_named_args ex_named_w = (Inr v, w') \<and> vec_inv doubles (v, w') \<and>
     contents (v, w') = [0x3FF0000000000000, 0x4000000000000000] \<and>
     map_sum id names (deref (r_data v) w') = Inr (Some [''a'', ''b''])"
proof -
  have "rt_wf ex_named_w" "preserved ex_named_w = []"
    "2 * int (length ex_named_args) \<le> int (mem_avail ex_named_w)"
    "\<forall>x \<in> set ex_named_args. arg_ok doubles ex_named_w x"
    by (simp_all add: rt_wf_def ex_named_w_def ex_named_args_def arg_ok_def doubles_def deref_def)
  moreover have "map (arg_first ex_named_w) ex_named_args = [0x3FF0000000000000, 0x4000000000000000]"
    by (simp add: ex_named_w_def ex_named_args_def arg_first_def deref_def)
  moreover have "map arg_name ex_named_args = [''a'', ''b'']"
    by (simp add: ex_named_args_def)
  ultimately show ?thesis using named_ctor_builds [of ex_named_w ex_named_args doubles] by auto
qed

text \<open>C16: When a named argument has the wrong type, after any prefix of usable
  arguments, the named constructor throws type_error from inside its unwind_protect block;
  the handler catches unwind_exception only, so the preserve-list cell it registered for
  the fresh data is never released: the exception escapes with one protection left that
  nothing owns.\<close>

theorem named_ctor_type_error_leaks:
  assumes wf: "rt_wf w" "preserved w = []" and mem: "2 * int (length il) \<le> int (mem_avail w)"
    and il: "il = pre @ x # post" and pre: "\<forall>y \<in> set pre. arg_ok k w y"
    and ty: "TYPEOF (arg_value x) w = Inr t" "t \<noteq> ktype k"
  shows "\<exists>w'. named_ctor k il w = (Inl (TypeError (ktype k) t), w') \<and>
              preserved w' = [(next_cell w, Addr (next_addr w))]"
proof (rule named_ctor_arg_fails [OF wf mem il pre])
  have fresh: "heap w (next_addr w) = None" using wf by (simp add: rt_wf_def)
  then have ne: "arg_value x \<noteq> Addr (next_addr w)" using ty(1) by (auto simp: TYPEOF_def deref_def)
  fix v w'
  assume "\<forall>y. y \<noteq> Addr (next_addr w) \<longrightarrow> deref y w' = deref y w"
  with ne have "TYPEOF (arg_value x) w' = TYPEOF (arg_value x) w" by (simp add: TYPEOF_def)
  with ty show "named_fill k (x # post) (int (length pre)) (v, w') = (Inl (TypeError (ktype k) t), (v, w'))"
    by (simp add: rvector_ctor_def valid_type_def)
qed simp_all

theorem named_ctor_type_error_leaks_witness:
  "\<exists>w'. named_ctor doubles [\<lparr>arg_name = ''a'', arg_value = Addr 0\<rparr>, \<lparr>arg_name = ''b'', arg_value = Addr 1\<rparr>] ex_mixed_w = (Inl (TypeError REALSXP INTSXP), w') \<and> preserved w' = [(0, Addr 3)]"
proof -
  have "rt_wf ex_mixed_w" "preserved ex_mixed_w = []"
    "2 * int (length [\<lparr>arg_name = ''a'', arg_value = Addr 0\<rparr>, \<lparr>arg_name = ''b'', arg_value = Addr 1\<rparr>]) \<le> int (mem_avail ex_mixed_w)"
    "[\<lparr>arg_name = ''a'', arg_value = Addr 0\<rparr>, \<lparr>arg_name = ''b'', arg_value = Addr 1\<rparr>] = [\<lparr>arg_name = ''a'', arg_value = Addr 0\<rparr>] @ \<lparr>arg_name = ''b'', arg_value = Addr 1\<rparr> # []"
    "\<forall>y \<in> set [\<lparr>arg_name = ''a'', arg_value = Addr 0\<rparr>]. arg_ok doubles ex_mixed_w y"
    "TYPEOF (arg_value \<lparr>arg_name = ''b'', arg_value = Addr 1\<rparr>) ex_mixed_w = Inr INTSXP" "INTSXP \<noteq> ktype doubles"
    by (simp_all add: rt_wf_def ex_mixed_w_def arg_ok_def deref_def elt_fails_def doubles_def TYPEOF_def)
  from named_ctor_type_error_leaks [OF this] show ?thesis by (simp add: doubles_def ex_mixed_w_def)
qed

text \<open>C27: The named constructor reads \<open>doubles(it->value())[0]\<close> with the unchecked
  \<open>operator[]\<close>: for a named argument that is an empty double vector, after any prefix of
  usable arguments, the read is outside its buffer, undefined behaviour rather than an
  exception, and the fresh data stays registered in the preserve list.\<close>

theorem named_ctor_empty_arg_reads_out_of_bounds:
  assumes wf: "rt_wf w" "preserved w = []" and mem: "2 * int (length il) \<le> int (mem_avail w)"
    and il: "il = pre @ x # post" and pre: "\<forall>y \<in> set pre. arg_ok k w y"
    and x: "deref (arg_value x) w = Inr ob" "otype ob = ktype k" "elts ob = []"
      "\<not> (alt ob \<and> elt_fails (arg_value x) w)"
  shows "\<exists>w'. named_ctor k il w = (Inl Undefined, w') \<and> preserved w' = [(next_cell w, Addr (next_addr w))]"
proof (rule named_ctor_arg_fails [OF wf mem il pre])
  from x(1) obtain b where b: "arg_value x = Addr b" "heap w b = Some ob"
    by (auto simp: deref_def split: sexp.splits option.splits)
  have fresh: "heap w (next_addr w) = None" using wf by (simp add: rt_wf_def)
  with b have ne: "Addr b \<noteq> Addr (next_addr w)" by auto
  fix v w'
  assume d: "\<forall>y. y \<noteq> Addr (next_addr w) \<longrightarrow> deref y w' = deref y w"
    and e: "\<forall>y. elt_fails y w' = elt_fails y w"
  from d ne have "deref (Addr b) w' = deref (Addr b) w" by simp
  with b(2) have hb: "heap w' b = Some ob" by (simp add: deref_def split: option.splits)
  have "elt_fails (Addr b) w' = elt_fails (Addr b) w" using e by blast
  with x(4) b have nf: "\<not> (alt ob \<and> b \<in> elt_errors w')" by (simp add: elt_fails_def)
  show "named_fill k (x # post) (int (length pre)) (v, w') = (Inl Undefined, (v, w'))"
    using b(1) hb nf x(2,3)
    by (simp add: rvector_ctor_def valid_type_def get_p_def subscript_def rt_simps)
qed simp_all

theorem named_ctor_empty_arg_reads_out_of_bounds_witness:
  "\<exists>w'. named_ctor doubles [\<lparr>arg_name = ''a'', arg_value = Addr 0\<rparr>, \<lparr>arg_name = ''c'', arg_value = Addr 2\<rparr>] ex_mixed_w = (Inl Undefined, w') \<and> preserved w' = [(0, Addr 3)]"
proof -
  have "rt_wf ex_mixed_w" "preserved ex_mixed_w = []"
    "2 * int (length [\<lparr>arg_name = ''a'', arg_value = Addr 0\<rparr>, \<lparr>arg_name = ''c'', arg_value = Addr 2\<rparr>]) \<le> int (mem_avail ex_mixed_w)"
    "[\<lparr>arg_name = ''a'', arg_value = Addr 0\<rparr>, \<lparr>arg_name = ''c'', arg_value = Addr 2\<rparr>] = [\<lparr>arg_name = ''a'', arg_value = Addr 0\<rparr>] @ \<lparr>arg_name = ''c'', arg_value = Addr 2\<rparr> # []"
    "\<forall>y \<in> set [\<lparr>arg_name = ''a'', arg_value = Addr 0\<rparr>]. arg_ok doubles ex_mixed_w y"
    "deref (arg_value \<lparr>arg_name = ''c'', arg_value = Addr 2\<rparr>) ex_mixed_w = Inr \<lparr>otype = REALSXP, alt = False, elts = [], names = None\<rparr>"
    "otype \<lparr>otype = REALSXP, alt = False, elts = ([] :: 64 word list), names = None\<rparr> = ktype doubles"
    "elts \<lparr>otype = REALSXP, alt = False, elts = ([] :: 64 word list), names = None\<rparr> = []"
    "\<not> (alt \<lparr>otype = REALSXP, alt = False, elts = ([] :: 64 word list), names = None\<rparr> \<and>
        elt_fails (arg_value \<lparr>arg_name = ''c'', arg_value = Addr 2\<rparr>) ex_mixed_w)"
    by (simp_all add: rt_wf_def ex_mixed_w_def arg_ok_def deref_def elt_fails_def doubles_def TYPEOF_def)
  from named_ctor_empty_arg_reads_out_of_bounds [OF this] show ?thesis by (simp add: doubles_def ex_mixed_w_def)
qed

end
