(* ===== verification/Logicals.thy ===== *)
theory Logicals
  imports Constructors
begin

text \<open>
  The logicals specialisation (src/inst/include/cpp11/logicals.hpp): the element kind
  \<open>LGLSXP\<close> with its three states, the template operations at that kind, and the
  places where the file differs from doubles.hpp: the reads, which cast
  \<open>LOGICAL_ELT\<close> to \<open>Rboolean\<close>, the literal-list constructor and \<open>fill_buf\<close>
  (Iterator.thy).
\<close>

definition NA_LOGICAL :: "32 word" where
  "NA_LOGICAL = 0x80000000"

text \<open>\<open>typedef vector<Rboolean> logicals\<close>: \<open>LGLSXP\<close>, the message
  \<open>"logicals"\<close>, and \<open>NA_LOGICAL\<close> (\<open>INT_MIN\<close>). An \<open>Rboolean\<close> element is stored as
  the 32-bit integer R keeps in a logical vector.\<close>

definition logicals :: "32 word kind" where
  "logicals = \<lparr>ktype = LGLSXP, kname = ''logicals'', na = NA_LOGICAL\<rparr>"

text \<open>The three logical states and their encoding in a logical vector: \<open>FALSE\<close> is 0,
  \<open>TRUE\<close> is 1, \<open>NA\<close> is \<open>NA_LOGICAL\<close>; R reads any other non-zero value as \<open>TRUE\<close>.\<close>

datatype lgl = LFALSE | LTRUE | LNA

definition lgl_encode :: "lgl \<Rightarrow> 32 word" where
  "lgl_encode b = (case b of LFALSE \<Rightarrow> 0 | LTRUE \<Rightarrow> 1 | LNA \<Rightarrow> NA_LOGICAL)"

definition lgl_decode :: "32 word \<Rightarrow> lgl" where
  "lgl_decode x = (if x = NA_LOGICAL then LNA else if x = 0 then LFALSE else LTRUE)"

text \<open>The specialisations of logicals.hpp that have the same body as the doubles ones
  are the template at the logical kind.\<close>

definition lgl_valid_type :: "sexp \<Rightarrow> 32 word rstate \<Rightarrow> error + sexp" where
  "lgl_valid_type data w = valid_type logicals data w"

definition lgl_get_p :: "bool \<Rightarrow> sexp \<Rightarrow> 32 word rstate \<Rightarrow> error + sexp option" where
  "lgl_get_p is_altrep data w = get_p logicals is_altrep data w"

text \<open>\<open>static_cast<Rboolean>\<close>: \<open>Rboolean\<close> is an enumeration \<open>{FALSE = 0, TRUE = 1}\<close>
  without a fixed underlying type, so its values are 0 and 1; converting any other
  integer, \<open>NA_LOGICAL\<close> included, is undefined behaviour (C++17 [expr.static.cast]).\<close>

definition Rboolean_cast :: "32 word \<Rightarrow> error + 32 word" where
  "Rboolean_cast x = (if x = 0 \<or> x = 1 then Inr x else Inl Undefined)"

text \<open>\<open>static_cast<Rboolean>(LOGICAL_ELT(x, i))\<close>, the ALTREP read of logicals.hpp.\<close>

definition lgl_elt :: "sexp \<Rightarrow> r_xlen_t \<Rightarrow> 32 word rstate \<Rightarrow> error + 32 word" where
  "lgl_elt x i w = (case get_elt x i w of Inl e \<Rightarrow> Inl e | Inr y \<Rightarrow> Rboolean_cast y)"

text \<open>\<open>operator[]\<close>, \<open>at\<close> and the proxy conversion read a materialised vector through
  \<open>data_p_\<close>, a \<open>reinterpret_cast<Rboolean*>\<close> of \<open>LOGICAL(data)\<close>, and an ALTREP
  one through the cast above. The pointer read is kept as the stored 32-bit word, which is
  what common compilers do.\<close>

definition lgl_subscript :: "'a rvector_scheme \<Rightarrow> r_xlen_t \<Rightarrow> 32 word rstate \<Rightarrow> error + 32 word" where
  "lgl_subscript v pos w =
     (if r_is_altrep v then lgl_elt (r_data v) pos w else ptr_read (r_data_p v) pos w)"

definition lgl_at :: "'a rvector_scheme \<Rightarrow> r_xlen_t \<Rightarrow> 32 word rstate \<Rightarrow> error + 32 word" where
  "lgl_at v pos w =
     (if pos < 0 \<or> pos \<ge> r_length v then Inl (OutOfRange ''logicals'')
      else if r_is_altrep v then lgl_elt (r_data v) pos w else ptr_read (r_data_p v) pos w)"

definition lgl_proxy_assign :: "proxy \<Rightarrow> 32 word \<Rightarrow> 32 word rstate \<Rightarrow> error + 32 word rstate" where
  "lgl_proxy_assign px rhs w = proxy_assign px rhs w"

definition lgl_proxy_get :: "proxy \<Rightarrow> 32 word rstate \<Rightarrow> error + 32 word" where
  "lgl_proxy_get px w =
     (if px_p px = None then lgl_elt (px_data px) (px_index px) w else ptr_read (px_p px) (px_index px) w)"

definition lgl_named_ctor :: "named_arg list \<Rightarrow> (32 word rstate, wvector) exn" where
  "lgl_named_ctor il w = named_ctor logicals il w"

definition lgl_reserve :: "r_xlen_t \<Rightarrow> (32 word vstate, unit) exn" where
  "lgl_reserve new_capacity s = reserve logicals new_capacity s"

definition lgl_push_back :: "32 word \<Rightarrow> 32 word vstate \<Rightarrow> ((error + unit) \<times> 32 word vstate) option" where
  "lgl_push_back value s = push_back logicals value s"

text \<open>The loop of \<open>writable::vector(std::initializer_list<Rboolean>)\<close>:
  \<open>SET_LOGICAL_ELT(data_, i, *it)\<close> for each element.\<close>

fun lgl_fill :: "sexp \<Rightarrow> r_xlen_t \<Rightarrow> 32 word list \<Rightarrow> 32 word rstate \<Rightarrow> error + 32 word rstate" where
  "lgl_fill d i [] w = Inr w"
| "lgl_fill d i (x # xs) w = (case set_elt d i x w of Inl e \<Rightarrow> Inl e | Inr w' \<Rightarrow> lgl_fill d (i + 1) xs w')"

text \<open>\<open>writable::vector(std::initializer_list<Rboolean>)\<close>: unlike the doubles
  constructor it calls \<open>Rf_allocVector\<close> without \<open>safe[]\<close> (an allocation error
  longjmps) and registers the protection itself.\<close>

definition lgl_il_ctor :: "32 word list \<Rightarrow> (32 word rstate, wvector) exn" where
  "lgl_il_ctor il w =
     (case Rf_allocVector LGLSXP (int (length il)) NA_LOGICAL w of
        (Inl e, w1) \<Rightarrow> (Inl e, w1)
      | (Inr d, w1) \<Rightarrow> (case rvector_ctor logicals d w1 of
          Inl e \<Rightarrow> (Inl e, w1)
        | Inr rv \<Rightarrow>
            (let v0 = to_writable rv (int (length il)) in
             case protect_sexp (r_data v0) w1 of (t, w2) \<Rightarrow>
             let v1 = v0\<lparr>r_protect := t\<rparr> in
             (case lgl_fill (r_data v1) 0 il w2 of
                Inl e \<Rightarrow> (Inl e, w2)
              | Inr w3 \<Rightarrow> (Inr v1, w3)))))"

text \<open>An empty runtime for logical vectors, and a vector over an ALTREP logical object
  holding \<open>TRUE\<close> with one free slot.\<close>

definition lgl_w_init :: "32 word rstate" where
  "lgl_w_init = \<lparr>heap = Map.empty, next_addr = 0, preserved = [], next_cell = 0, mem_avail = 16,
                 region_calls = 0,
                 region_errors = {}, elt_errors = {}\<rparr>"

definition lgl_alt_v :: wvector where
  "lgl_alt_v = \<lparr>r_data = Addr 0, r_protect = Cell 0, r_is_altrep = True, r_data_p = None,
                r_length = 1, w_capacity = 2\<rparr>"

definition lgl_alt_w :: "32 word rstate" where
  "lgl_alt_w = \<lparr>heap = [0 \<mapsto> \<lparr>otype = LGLSXP, alt = True, elts = [1, NA_LOGICAL], names = None\<rparr>],
                next_addr = 1, preserved = [(0, Addr 0)], next_cell = 1, mem_avail = 0, region_calls = 0,
                region_errors = {}, elt_errors = {}\<rparr>"

text \<open>The same two slots in a materialised logical vector.\<close>

definition lgl_mat_v :: wvector where
  "lgl_mat_v = \<lparr>r_data = Addr 0, r_protect = Cell 0, r_is_altrep = False, r_data_p = Some (Addr 0),
                r_length = 1, w_capacity = 2\<rparr>"

definition lgl_mat_w :: "32 word rstate" where
  "lgl_mat_w = \<lparr>heap = [0 \<mapsto> \<lparr>otype = LGLSXP, alt = False, elts = [1, NA_LOGICAL], names = None\<rparr>],
                next_addr = 1, preserved = [(0, Addr 0)], next_cell = 1, mem_avail = 0, region_calls = 0,
                region_errors = {}, elt_errors = {}\<rparr>"

lemma lgl_decode_encode [simp]: "lgl_decode (lgl_encode b) = b"
  by (cases b) (simp_all add: lgl_encode_def lgl_decode_def NA_LOGICAL_def)

lemma Rboolean_cast_encode [simp]:
  "Rboolean_cast (lgl_encode b) = (if b = LNA then Inl Undefined else Inr (lgl_encode b))"
  by (cases b) (simp_all add: Rboolean_cast_def lgl_encode_def NA_LOGICAL_def)

text \<open>On a valid logical vector, \<open>at\<close> reads the contents, through the cast when the
  vector is ALTREP.\<close>

lemma lgl_at_contents:
  assumes "vec_inv logicals (v, w)" "0 \<le> pos" "pos < r_length v"
  shows "lgl_at v pos w = (if r_is_altrep v then Rboolean_cast (contents (v, w) ! nat pos)
                           else Inr (contents (v, w) ! nat pos))"
proof -
  from at_contents [OF assms] have "at logicals v pos w = Inr (contents (v, w) ! nat pos)" .
  with assms(2,3) show ?thesis by (simp add: at_def lgl_at_def lgl_elt_def split: if_splits)
qed

lemma lgl_proxy_get_at:
  assumes "vec_inv logicals (v, w)" "0 \<le> pos" "pos < r_length v"
  shows "lgl_proxy_get (w_subscript v pos) w = lgl_at v pos w"
proof -
  note d = vec_inv_data [OF assms]
  show ?thesis
    using d(1,2) assms(2,3)
    by (auto simp: lgl_proxy_get_def w_subscript_def lgl_at_def handle_ok_def
             split: sum.splits token.splits if_splits)
qed

lemma lgl_mat_inv: "vec_inv logicals (lgl_mat_v, lgl_mat_w)"
  by (simp add: vec_inv_def handle_ok_def buf_len_def rt_wf_def lgl_mat_v_def lgl_mat_w_def
                logicals_def deref_def)

lemma lgl_alt_inv: "vec_inv logicals (lgl_alt_v, lgl_alt_w)"
  by (simp add: vec_inv_def handle_ok_def buf_len_def rt_wf_def lgl_alt_v_def lgl_alt_w_def
                logicals_def deref_def)

lemma lgl_fill_ok:
  assumes "heap w a = Some ob" "0 \<le> i" "nat i + length xs \<le> length (elts ob)" "\<not> alt ob"
  shows "lgl_fill (Addr a) i xs w =
           Inr (put_obj (Addr a) (ob\<lparr>elts := take (nat i) (elts ob) @ xs @ drop (nat i + length xs) (elts ob)\<rparr>) w)"
  using assms
proof (induction xs arbitrary: i w ob)
  case Nil
  then show ?case by (simp add: put_obj_def map_upd_triv)
next
  case (Cons x xs)
  let ?ob' = "ob\<lparr>elts := (elts ob)[nat i := x]\<rparr>"
  have s: "set_elt (Addr a) i x w = Inr (put_obj (Addr a) ?ob' w)"
    using Cons.prems by (simp add: set_elt_def buf_set_def elt_fails_def deref_def)
  have "lgl_fill (Addr a) (i + 1) xs (put_obj (Addr a) ?ob' w) =
        Inr (put_obj (Addr a) (?ob'\<lparr>elts := take (nat (i + 1)) (elts ?ob') @ xs @ drop (nat (i + 1) + length xs) (elts ?ob')\<rparr>) (put_obj (Addr a) ?ob' w))"
    using Cons.prems by (intro Cons.IH) auto
  moreover have "take (nat (i + 1)) ((elts ob)[nat i := x]) @ xs @ drop (nat (i + 1) + length xs) ((elts ob)[nat i := x])
      = take (nat i) (elts ob) @ (x # xs) @ drop (nat i + length (x # xs)) (elts ob)"
    using Cons.prems by (simp add: nat_add_distrib take_update_last)
  ultimately show ?case using s by simp
qed

text \<open>C17: The logicals literal-list constructor succeeds when the runtime has room,
  yields a vector satisfying the invariant (protected by exactly one cell) whose contents
  are the list.\<close>

theorem lgl_il_ctor_reads_back:
  assumes wf: "rt_wf w" "preserved w = []" and mem: "int (length il) \<le> int (mem_avail w)"
  shows "\<exists>v w'. lgl_il_ctor il w = (Inr v, w') \<and> vec_inv logicals (v, w') \<and>
                contents (v, w') = il \<and> r_length v = int (length il)"
proof -
  define a where "a = next_addr w"
  define ob where "ob = \<lparr>otype = LGLSXP, alt = False, elts = replicate (length il) NA_LOGICAL, names = None\<rparr>"
  define w1 where "w1 = w\<lparr>heap := (heap w)(a \<mapsto> ob), next_addr := Suc a, mem_avail := mem_avail w - length il\<rparr>"
  have alloc: "Rf_allocVector LGLSXP (int (length il)) NA_LOGICAL w = (Inr (Addr a), w1)"
    using mem by (simp add: Rf_allocVector_def a_def ob_def w1_def)
  have rv: "rvector_ctor logicals (Addr a) w1 = Inr \<lparr>r_data = Addr a, r_protect = NoToken, r_is_altrep = False,
            r_data_p = Some (Addr a), r_length = int (length il)\<rparr>"
    using rvector_ctor_fresh [of w1 a ob logicals] by (simp add: w1_def ob_def logicals_def)
  define c where "c = next_cell w1"
  define w2 where "w2 = w1\<lparr>preserved := [(c, Addr a)], next_cell := Suc c\<rparr>"
  have prot: "protect_sexp (Addr a) w1 = (Cell c, w2)"
    using wf by (simp add: protect_sexp_def c_def w2_def w1_def)
  have fill: "lgl_fill (Addr a) 0 il w2 = Inr (put_obj (Addr a) (ob\<lparr>elts := il\<rparr>) w2)"
    using lgl_fill_ok [of w2 a ob 0 il] by (simp add: w2_def w1_def ob_def)
  let ?v = "\<lparr>r_data = Addr a, r_protect = Cell c, r_is_altrep = False, r_data_p = Some (Addr a),
             r_length = int (length il), w_capacity = int (length il)\<rparr>"
  have ctor: "lgl_il_ctor il w = (Inr ?v, put_obj (Addr a) (ob\<lparr>elts := il\<rparr>) w2)"
    using alloc rv prot fill by (simp add: lgl_il_ctor_def to_writable_def rvector.defs wvector.defs)
  have "vec_inv logicals (?v, put_obj (Addr a) (ob\<lparr>elts := il\<rparr>) w2)"
    using wf by (auto simp: vec_inv_def handle_ok_def buf_len_def rt_wf_def deref_def put_obj_def elt_ok_def
                            w2_def w1_def ob_def logicals_def a_def c_def)
  moreover have "contents (?v, put_obj (Addr a) (ob\<lparr>elts := il\<rparr>) w2) = il"
    by (simp add: contents_def deref_def put_obj_def)
  ultimately show ?thesis using ctor by auto
qed

theorem lgl_il_ctor_reads_back_witness:
  "\<exists>v w'. lgl_il_ctor [1, 0, NA_LOGICAL] lgl_w_init = (Inr v, w') \<and> vec_inv logicals (v, w') \<and>
     contents (v, w') = [1, 0, NA_LOGICAL]"
proof -
  have "rt_wf lgl_w_init" "preserved lgl_w_init = []"
    "int (length [1, 0, NA_LOGICAL :: 32 word]) \<le> int (mem_avail lgl_w_init)"
    by (simp_all add: rt_wf_def lgl_w_init_def)
  from lgl_il_ctor_reads_back [OF this] show ?thesis by blast
qed

text \<open>C18: Each of the three logical states pushed onto a valid logical vector reads back
  through \<open>at\<close> as the same state when the vector is materialised: NA is not collapsed
  into TRUE or FALSE. When the vector is ALTREP, TRUE and FALSE read back but NA does not:
  \<open>at\<close> casts \<open>LOGICAL_ELT\<close> to \<open>Rboolean\<close>, undefined for \<open>NA_LOGICAL\<close>.\<close>

theorem logical_states_roundtrip:
  assumes inv: "vec_inv logicals (v, w)"
    and pb: "lgl_push_back (lgl_encode b) (v, w) = Some (Inr u, (v', w'))"
  shows "map_sum id lgl_decode (lgl_at v' (r_length v) w') =
           (if r_is_altrep v \<and> b = LNA then Inl Undefined else Inr b)"
proof -
  from push_back_vec_inv [OF inv pb [unfolded lgl_push_back_def]] have
    i': "vec_inv logicals (v', w')" and c: "contents (v', w') = contents (v, w) @ [lgl_encode b]"
    by auto
  have alt: "r_is_altrep v' = r_is_altrep v"
    using push_back_altrep [OF pb [unfolded lgl_push_back_def]] by simp
  have len: "length (contents (v, w)) = nat (r_length v)" "0 \<le> r_length v"
    "length (contents (v', w')) = nat (r_length v')"
    using length_contents [OF inv] length_contents [OF i'] by auto
  then have "r_length v < r_length v'" using c by simp
  with lgl_at_contents [OF i', of "r_length v"] len c alt show ?thesis
    by (simp add: nth_append)
qed

theorem logical_states_roundtrip_witness:
  "(case lgl_push_back (lgl_encode LNA) (lgl_mat_v, lgl_mat_w) of
      Some (Inr u, (v', w')) \<Rightarrow> map_sum id lgl_decode (lgl_at v' 1 w') = Inr LNA
    | _ \<Rightarrow> False) \<and>
   (case lgl_push_back (lgl_encode LNA) (lgl_alt_v, lgl_alt_w) of
      Some (Inr u, (v', w')) \<Rightarrow> map_sum id lgl_decode (lgl_at v' 1 w') = Inl Undefined
    | _ \<Rightarrow> False)"
proof -
  obtain v1 w1 where p1: "lgl_push_back (lgl_encode LNA) (lgl_mat_v, lgl_mat_w) = Some (Inr (), (v1, w1))"
    by (simp add: lgl_push_back_def push_back_def grow.simps lgl_mat_v_def lgl_mat_w_def
                  lgl_encode_def ptr_write_def buf_set_def deref_def)
  obtain v2 w2 where p2: "lgl_push_back (lgl_encode LNA) (lgl_alt_v, lgl_alt_w) = Some (Inr (), (v2, w2))"
    by (simp add: lgl_push_back_def push_back_def grow.simps lgl_alt_v_def lgl_alt_w_def
                  lgl_encode_def set_elt_def buf_set_def elt_fails_def deref_def)
  from logical_states_roundtrip [OF lgl_mat_inv p1] logical_states_roundtrip [OF lgl_alt_inv p2] p1 p2
  show ?thesis by (simp add: lgl_mat_v_def lgl_alt_v_def)
qed

text \<open>C28: Whenever the runtime cannot allocate the vector, the doubles literal-list
  constructor (through \<open>as_sexp\<close>, under \<open>safe[]\<close>) throws \<open>unwind_exception\<close>, but
  the logicals one calls \<open>Rf_allocVector\<close> unwrapped, so the R error longjmps through
  the C++ frame; neither changes the runtime.\<close>

theorem literal_ctors_alloc_failure_differ:
  assumes "int (mem_avail w) < int (length xs)" and "int (mem_avail w') < int (length ys)"
  shows "il_ctor doubles xs w = (Inl UnwindException, w) \<and> lgl_il_ctor ys w' = (Inl RError, w')"
  using assms by (simp add: il_ctor_def as_sexp_def lgl_il_ctor_def Rf_allocVector_def unwind_protect_def)

theorem literal_ctors_alloc_failure_differ_witness:
  "il_ctor doubles [0x3FF0000000000000] (w_init\<lparr>mem_avail := 0\<rparr>) = (Inl UnwindException, w_init\<lparr>mem_avail := 0\<rparr>) \<and>
   lgl_il_ctor [1, 0] (lgl_w_init\<lparr>mem_avail := 1\<rparr>) = (Inl RError, lgl_w_init\<lparr>mem_avail := 1\<rparr>)"
  by (rule literal_ctors_alloc_failure_differ) simp_all

text \<open>C30: Each logical state written through the proxy of \<open>operator[]\<close> of a valid
  logical vector reads back as the same state through the proxy conversion and through
  \<open>at\<close> when the vector is materialised; when it is ALTREP, the write goes through
  \<open>SET_LOGICAL_ELT\<close> and TRUE and FALSE read back, but both reads of NA cast
  \<open>NA_LOGICAL\<close> to \<open>Rboolean\<close>, which is undefined.\<close>

theorem lgl_proxy_roundtrip:
  assumes inv: "vec_inv logicals (v, w)" and pos: "0 \<le> pos" "pos < r_length v"
  shows "\<exists>px w'. w_at logicals v pos = Inr px \<and> lgl_proxy_assign px (lgl_encode b) w = Inr w' \<and>
           map_sum id lgl_decode (lgl_proxy_get px w') =
             (if r_is_altrep v \<and> b = LNA then Inl Undefined else Inr b) \<and>
           map_sum id lgl_decode (lgl_at v pos w') =
             (if r_is_altrep v \<and> b = LNA then Inl Undefined else Inr b)"
proof -
  from proxy_assign_slot [OF inv pos, of "lgl_encode b"] obtain w' where
    a: "proxy_assign (w_subscript v pos) (lgl_encode b) w = Inr w'" "vec_inv logicals (v, w')"
       "contents (v, w') = (contents (v, w))[nat pos := lgl_encode b]" by blast
  have "nat pos < length (contents (v, w))" using length_contents [OF inv] pos by simp
  then have r: "map_sum id lgl_decode (lgl_at v pos w') =
             (if r_is_altrep v \<and> b = LNA then Inl Undefined else Inr b)"
    using lgl_at_contents [OF a(2) pos] a(3) by simp
  moreover have "w_at logicals v pos = Inr (w_subscript v pos)" using pos by (simp add: w_at_def)
  ultimately show ?thesis
    using a lgl_proxy_get_at [OF a(2) pos] by (simp add: lgl_proxy_assign_def)
qed

theorem lgl_proxy_roundtrip_witness:
  "(\<exists>px w'. w_at logicals lgl_mat_v 0 = Inr px \<and> lgl_proxy_assign px (lgl_encode LNA) lgl_mat_w = Inr w' \<and>
     map_sum id lgl_decode (lgl_proxy_get px w') = Inr LNA \<and>
     map_sum id lgl_decode (lgl_at lgl_mat_v 0 w') = Inr LNA) \<and>
   (\<exists>px w'. w_at logicals lgl_alt_v 0 = Inr px \<and> lgl_proxy_assign px (lgl_encode LNA) lgl_alt_w = Inr w' \<and>
     map_sum id lgl_decode (lgl_proxy_get px w') = Inl Undefined \<and>
     map_sum id lgl_decode (lgl_at lgl_alt_v 0 w') = Inl Undefined)"
proof -
  have "0 \<le> (0::int)" "0 < r_length lgl_mat_v" "0 < r_length lgl_alt_v"
    by (simp_all add: lgl_mat_v_def lgl_alt_v_def)
  from lgl_proxy_roundtrip [OF lgl_mat_inv this(1,2), of LNA]
       lgl_proxy_roundtrip [OF lgl_alt_inv this(1,3), of LNA]
  show ?thesis by (simp add: lgl_mat_v_def lgl_alt_v_def)
qed

end
