(* ===== verification/Iterator.thy ===== *)
theory Iterator
  imports Logicals
begin

text \<open>
  The block iterator \<open>vector<T>::const_iterator\<close>. Its state, operators and the
  range loop live in vector.hpp, outside the two modelled files, and are modelled from
  the specification (section 4.4: a window of at most 64 elements is fetched with one
  \<open>*_GET_REGION\<close> call when the position leaves it; a materialised vector is read
  through its data pointer). The refill \<open>fill_buf\<close> is the code of doubles.hpp
  (wrapped in \<open>unwind_protect\<close>) and of logicals.hpp (not wrapped). The
  theorems show that a pass over the vector yields its contents, hence what
  \<open>operator[]\<close> reads at each index, and that an ALTREP vector of length \<open>n\<close> costs
  exactly \<open>\<lceil>n / 64\<rceil>\<close> region calls and no other change to the runtime, provided its
  region method does not fail; when it does, the two specialisations differ in what
  escapes (an \<open>unwind_exception\<close> or a raw R error). Every state of a pass satisfies
  the window invariant \<open>win_ok\<close>.
\<close>

text \<open>\<open>const_iterator\<close>: the vector it reads (\<open>data_\<close>), the position \<open>pos_\<close>,
  the 64-element \<open>buf_\<close>, and the window \<open>[block_start_, block_start_ + length_)\<close>.\<close>

record 'e const_iterator =
  it_data :: rvector
  it_pos :: r_xlen_t
  it_buf :: "'e list"
  it_block_start :: r_xlen_t
  it_length :: r_xlen_t

type_synonym 'e istate = "'e const_iterator \<times> 'e rstate"

text \<open>\<open>vector<double>::const_iterator::fill_buf(pos)\<close>: \<open>length_\<close> is set
  first, then the region is copied into the front of \<open>buf_\<close> under \<open>unwind_protect\<close>,
  then \<open>block_start_\<close> is set; an exception leaves \<open>length_\<close> updated.\<close>

definition fill_buf :: "r_xlen_t \<Rightarrow> ('e istate, unit) exn" where
  "fill_buf pos s = (case s of (it, w) \<Rightarrow>
     let it1 = it\<lparr>it_length := min 64 (r_length (it_data it) - pos)\<rparr> in
     (case unwind_protect (GET_REGION (r_data (it_data it1)) pos (it_length it1)) w of
        (Inl e, w1) \<Rightarrow> (Inl e, (it1, w1))
      | (Inr b, w1) \<Rightarrow>
          (Inr (), (it1\<lparr>it_buf := b @ drop (length b) (it_buf it1), it_block_start := pos\<rparr>, w1))))"

text \<open>\<open>vector<Rboolean>::const_iterator::fill_buf(pos)\<close>: the same steps with
  \<open>LOGICAL_GET_REGION\<close> called directly.\<close>

definition lgl_fill_buf :: "r_xlen_t \<Rightarrow> ('e istate, unit) exn" where
  "lgl_fill_buf pos s = (case s of (it, w) \<Rightarrow>
     let it1 = it\<lparr>it_length := min 64 (r_length (it_data it) - pos)\<rparr> in
     (case GET_REGION (r_data (it_data it1)) pos (it_length it1) w of
        (Inl e, w1) \<Rightarrow> (Inl e, (it1, w1))
      | (Inr b, w1) \<Rightarrow>
          (Inr (), (it1\<lparr>it_buf := b @ drop (length b) (it_buf it1), it_block_start := pos\<rparr>, w1))))"

text \<open>\<open>begin()\<close>: position 0, an empty window, a value-initialised buffer.\<close>

definition it_begin :: "rvector \<Rightarrow> 'e::zero const_iterator" where
  "it_begin v = \<lparr>it_data = v, it_pos = 0, it_buf = replicate 64 0, it_block_start = 0,
                 it_length = 0\<rparr>"

text \<open>\<open>operator*\<close>: an ALTREP vector refills the window when the position is
  outside it, then reads \<open>buf_[pos_ - block_start_]\<close>; a materialised vector reads
  \<open>data_p_[pos_]\<close>. The refill routine is a parameter, so that both specialisations
  share the loop.\<close>

definition it_deref :: "(r_xlen_t \<Rightarrow> ('e istate, unit) exn) \<Rightarrow> ('e istate, 'e) exn" where
  "it_deref fill s = (case s of (it, w) \<Rightarrow>
     let buf_read = (\<lambda>it. let j = it_pos it - it_block_start it in
           if j < 0 \<or> int (length (it_buf it)) \<le> j then Inl Undefined else Inr (it_buf it ! nat j))
     in if r_is_altrep (it_data it) then
       (if it_pos it < it_block_start it \<or> it_block_start it + it_length it \<le> it_pos it then
          (case fill (it_pos it) (it, w) of
             (Inl e, s1) \<Rightarrow> (Inl e, s1)
           | (Inr u, (it1, w1)) \<Rightarrow> (buf_read it1, (it1, w1)))
        else (buf_read it, (it, w)))
     else (ptr_read (r_data_p (it_data it)) (it_pos it) w, (it, w)))"

text \<open>\<open>n\<close> rounds of \<open>*it; ++it\<close>, collecting the values, and the range loop
  \<open>for (auto x : v)\<close> from \<open>begin()\<close> over the length of the vector.\<close>

fun it_take :: "(r_xlen_t \<Rightarrow> ('e istate, unit) exn) \<Rightarrow> nat \<Rightarrow> ('e istate, 'e list) exn" where
  "it_take fill 0 s = (Inr [], s)"
| "it_take fill (Suc n) s = (case it_deref fill s of
      (Inl e, s1) \<Rightarrow> (Inl e, s1)
    | (Inr x, (it1, w1)) \<Rightarrow> (case it_take fill n (it1\<lparr>it_pos := it_pos it1 + 1\<rparr>, w1) of
          (Inl e, s2) \<Rightarrow> (Inl e, s2)
        | (Inr xs, s2) \<Rightarrow> (Inr (x # xs), s2)))"

definition iterate :: "(r_xlen_t \<Rightarrow> ('e::zero istate, unit) exn) \<Rightarrow> rvector \<Rightarrow> ('e rstate, 'e list) exn" where
  "iterate fill v w = (case it_take fill (nat (r_length v)) (it_begin v, w) of (r, (it, w')) \<Rightarrow> (r, w'))"

text \<open>What the loop needs of a refill routine: on a live handle and a position inside
  the vector it succeeds, copies \<open>min(64, length - pos)\<close> elements to the front of the
  buffer, sets the window, and costs one region call.\<close>

definition region_fill :: "(r_xlen_t \<Rightarrow> ('e istate, unit) exn) \<Rightarrow> bool" where
  "region_fill fill \<longleftrightarrow> (\<forall>it w p a ob. r_data (it_data it) = Addr a \<longrightarrow> heap w a = Some ob \<longrightarrow>
     a \<notin> region_errors w \<longrightarrow> 0 \<le> p \<longrightarrow> p < r_length (it_data it) \<longrightarrow> r_length (it_data it) \<le> int (length (elts ob)) \<longrightarrow>
     fill p (it, w) =
       (Inr (), (it\<lparr>it_length := min 64 (r_length (it_data it) - p),
                    it_buf := take (nat (min 64 (r_length (it_data it) - p))) (drop (nat p) (elts ob)) @
                              drop (nat (min 64 (r_length (it_data it) - p))) (it_buf it),
                    it_block_start := p\<rparr>,
                 w\<lparr>region_calls := Suc (region_calls w)\<rparr>)))"

text \<open>The window invariant of the specification: the handle is live, the window
  \<open>[block_start_, block_start_ + length_)\<close> lies inside the object, holds at most 64
  elements, and the front of \<open>buf_\<close> is a copy of exactly that part of the object.\<close>

definition win_ok :: "'e const_iterator \<Rightarrow> 'e rstate \<Rightarrow> bool" where
  "win_ok it w = (case deref (r_data (it_data it)) w of
      Inl e \<Rightarrow> False
    | Inr ob \<Rightarrow> 0 \<le> it_block_start it \<and> 0 \<le> it_length it \<and> it_length it \<le> 64 \<and>
        length (it_buf it) = 64 \<and> it_block_start it + it_length it \<le> int (length (elts ob)) \<and>
        take (nat (it_length it)) (it_buf it) =
          take (nat (it_length it)) (drop (nat (it_block_start it)) (elts ob)))"

text \<open>A 200-element ALTREP doubles vector, every element \<open>NA_REAL\<close>.\<close>

definition alt200_v :: wvector where
  "alt200_v = \<lparr>r_data = Addr 0, r_protect = Cell 0, r_is_altrep = True, r_data_p = None,
                r_length = 200, w_capacity = 200\<rparr>"

definition alt200_w :: "64 word rstate" where
  "alt200_w = \<lparr>heap = [0 \<mapsto> \<lparr>otype = REALSXP, alt = True, elts = replicate 200 NA_REAL, names = None\<rparr>],
                next_addr = 1, preserved = [(0, Addr 0)], next_cell = 1, mem_avail = 0, region_calls = 0,
                region_errors = {}, elt_errors = {}\<rparr>"

lemma fill_buf_ok:
  assumes "r_data (it_data it) = Addr a" "heap w a = Some ob" "0 \<le> p" "p < r_length (it_data it)"
    "r_length (it_data it) \<le> int (length (elts ob))" "a \<notin> region_errors w"
  shows "fill_buf p (it, w) =
    (Inr (), (it\<lparr>it_length := min 64 (r_length (it_data it) - p),
                 it_buf := take (nat (min 64 (r_length (it_data it) - p))) (drop (nat p) (elts ob)) @
                           drop (nat (min 64 (r_length (it_data it) - p))) (it_buf it),
                 it_block_start := p\<rparr>,
              w\<lparr>region_calls := Suc (region_calls w)\<rparr>))"
proof -
  let ?c = "min 64 (r_length (it_data it) - p)"
  have m: "min ?c (int (length (elts ob)) - p) = ?c" using assms(5) by simp
  have l: "length (take (nat ?c) (drop (nat p) (elts ob))) = nat ?c" using assms(3-5) by simp
  show ?thesis using assms(1-3,6) m l
    by (simp add: fill_buf_def GET_REGION_def unwind_protect_def deref_def region_fails_def Let_def)
qed

lemma fill_buf_region: "region_fill fill_buf"
  unfolding region_fill_def by (blast intro: fill_buf_ok)

lemma it_take_add:
  "it_take fill (m + n) s = (case it_take fill m s of
      (Inl e, s1) \<Rightarrow> (Inl e, s1)
    | (Inr xs, s1) \<Rightarrow> (case it_take fill n s1 of
          (Inl e, s2) \<Rightarrow> (Inl e, s2)
        | (Inr ys, s2) \<Rightarrow> (Inr (xs @ ys), s2)))"
proof (induction m arbitrary: s)
  case 0
  then show ?case by (simp split: prod.split sum.split)
next
  case (Suc m)
  then show ?case by (simp split: prod.split sum.split)
qed

lemma it_take_window:
  assumes "r_is_altrep (it_data it)" "it_block_start it \<le> it_pos it"
    "it_pos it + int m \<le> it_block_start it + it_length it"
    "it_length it \<le> int (length (it_buf it))"
  shows "it_take fill m (it, w) =
    (Inr (take m (drop (nat (it_pos it - it_block_start it)) (it_buf it))),
     (it\<lparr>it_pos := it_pos it + int m\<rparr>, w))"
  using assms
proof (induction m arbitrary: it)
  case 0
  then show ?case by simp
next
  case (Suc m)
  let ?k = "nat (it_pos it - it_block_start it)"
  have k: "?k < length (it_buf it)" using Suc.prems by simp
  have d: "it_deref fill (it, w) = (Inr (it_buf it ! ?k), (it, w))"
    using Suc.prems by (simp add: it_deref_def Let_def)
  have ih: "it_take fill m (it\<lparr>it_pos := it_pos it + 1\<rparr>, w) =
    (Inr (take m (drop (Suc ?k) (it_buf it))), (it\<lparr>it_pos := it_pos it + int (Suc m)\<rparr>, w))"
  proof -
    have "nat (it_pos it + 1 - it_block_start it) = Suc ?k" using Suc.prems(2) by simp
    then show ?thesis using Suc.IH [of "it\<lparr>it_pos := it_pos it + 1\<rparr>"] Suc.prems by (simp add: add_ac)
  qed
  show ?case using d ih k by (simp add: take_Suc_drop)
qed

lemma it_take_refill:
  assumes "r_is_altrep (it_data it)"
    "it_pos it < it_block_start it \<or> it_block_start it + it_length it \<le> it_pos it"
    "fill (it_pos it) (it, w) = (Inr (), (it1, w1))"
    "it_data it1 = it_data it" "it_pos it1 = it_pos it"
    "it_block_start it1 \<le> it_pos it1" "it_pos it1 < it_block_start it1 + it_length it1"
  shows "it_take fill (Suc m) (it, w) = it_take fill (Suc m) (it1, w1)"
  using assms by (simp add: it_deref_def Let_def)

lemma blocks_step: "0 < n \<Longrightarrow> Suc ((n - min 64 n + 63) div 64) = (n + 63) div (64::nat)"
  by (cases "64 \<le> n") (simp_all add: min_def div_add_self1 [symmetric] le_div_geq)

lemma it_take_blocks:
  assumes rf: "region_fill fill"
    and h: "r_is_altrep (it_data it)" "r_data (it_data it) = Addr a" "heap w a = Some ob"
      "r_length (it_data it) \<le> int (length (elts ob))" "a \<notin> region_errors w"
    and p: "it_pos it = it_block_start it + it_length it" "0 \<le> it_pos it"
      "it_pos it \<le> r_length (it_data it)" "length (it_buf it) = 64"
  shows "\<exists>it'. it_take fill (nat (r_length (it_data it) - it_pos it)) (it, w) =
    (Inr (take (nat (r_length (it_data it) - it_pos it)) (drop (nat (it_pos it)) (elts ob))),
     (it', w\<lparr>region_calls := region_calls w + (nat (r_length (it_data it) - it_pos it) + 63) div 64\<rparr>))"
  using h p
proof (induction "nat (r_length (it_data it) - it_pos it)" arbitrary: it w rule: less_induct)
  case less
  define L where "L = r_length (it_data it)"
  define p where "p = it_pos it"
  define n where "n = nat (L - p)"
  show ?case
  proof (cases "n = 0")
    case True
    then show ?thesis by (simp add: L_def p_def n_def)
  next
    case False
    define c where "c = min 64 (L - p)"
    have c: "0 < c" "c \<le> 64" "nat c = min 64 n" "p + c \<le> L"
      using False by (auto simp: c_def n_def)
    define it1 where "it1 = it\<lparr>it_length := c,
        it_buf := take (nat c) (drop (nat p) (elts ob)) @ drop (nat c) (it_buf it), it_block_start := p\<rparr>"
    define w1 where "w1 = w\<lparr>region_calls := Suc (region_calls w)\<rparr>"
    have f: "fill p (it, w) = (Inr (), (it1, w1))"
      using rf less.prems False unfolding region_fill_def it1_def w1_def c_def L_def p_def n_def
      by auto
    have lb: "length (take (nat c) (drop (nat p) (elts ob))) = nat c"
      using c less.prems by (simp add: L_def p_def)
    obtain c' where c': "nat c = Suc c'" using c(1) by (metis gr0_implies_Suc zero_less_nat_eq)
    have first: "it_take fill (nat c) (it, w) =
        (Inr (take (nat c) (drop (nat p) (elts ob))), (it1\<lparr>it_pos := p + c\<rparr>, w1))"
    proof -
      have "it_take fill (Suc c') (it, w) = it_take fill (Suc c') (it1, w1)"
        by (rule it_take_refill) (use less.prems f c in \<open>simp_all add: it1_def p_def\<close>)
      then have r: "it_take fill (nat c) (it, w) = it_take fill (nat c) (it1, w1)" by (simp only: c')
      have win: "it_take fill (nat c) (it1, w1) =
          (Inr (take (nat c) (drop (nat (it_pos it1 - it_block_start it1)) (it_buf it1))),
           (it1\<lparr>it_pos := it_pos it1 + int (nat c)\<rparr>, w1))"
        by (rule it_take_window) (use less.prems c lb in \<open>simp_all add: it1_def p_def\<close>)
      have "it_pos it1 = p" "it_block_start it1 = p" "int (nat c) = c"
        "take (nat c) (it_buf it1) = take (nat c) (drop (nat p) (elts ob))"
        using c lb by (simp_all add: it1_def p_def)
      then show ?thesis using r win by simp
    qed
    define it2 where "it2 = it1\<lparr>it_pos := p + c\<rparr>"
    have lt: "nat (r_length (it_data it2) - it_pos it2) < nat (r_length (it_data it) - it_pos it)"
      using c by (simp add: it2_def it1_def L_def p_def)
    have "it_pos it2 = it_block_start it2 + it_length it2" "0 \<le> it_pos it2"
      "it_pos it2 \<le> r_length (it_data it2)" "length (it_buf it2) = 64"
      using c less.prems lb by (simp_all add: it2_def it1_def L_def p_def)
    with less.hyps [OF lt, of w1] less.prems obtain it' where
      ih: "it_take fill (nat (L - (p + c))) (it2, w1) =
        (Inr (take (nat (L - (p + c))) (drop (nat (p + c)) (elts ob))),
         (it', w1\<lparr>region_calls := region_calls w1 + (nat (L - (p + c)) + 63) div 64\<rparr>))"
      by (auto simp: it2_def it1_def w1_def L_def p_def)
    have split: "nat (r_length (it_data it) - it_pos it) = nat c + nat (L - (p + c))"
      using c by (simp add: L_def p_def)
    have vals: "take (nat c) (drop (nat p) (elts ob)) @ take (nat (L - (p + c))) (drop (nat (p + c)) (elts ob)) =
        take (nat c + nat (L - (p + c))) (drop (nat p) (elts ob))"
    proof -
      have "nat (p + c) = nat p + nat c" using c less.prems by (simp add: nat_add_distrib p_def)
      then show ?thesis by (simp only: take_drop_append)
    qed
    have calls: "Suc (region_calls w) + (nat (L - (p + c)) + 63) div 64 =
        region_calls w + (nat c + nat (L - (p + c)) + 63) div 64"
    proof -
      have hn: "nat c + nat (L - (p + c)) = n" using c by (simp add: n_def)
      have hm: "nat (L - (p + c)) = n - min 64 n" using hn c(3) by simp
      have b: "Suc ((n - min 64 n + 63) div 64) = (n + 63) div 64"
        by (rule blocks_step) (use False in simp)
      have "(nat c + nat (L - (p + c)) + 63) div 64 = Suc ((nat (L - (p + c)) + 63) div 64)"
        unfolding hn by (subst hm) (rule b [symmetric])
      then show ?thesis by simp
    qed
    show ?thesis
      unfolding split it_take_add first
      using ih vals calls by (simp add: it2_def w1_def p_def)
  qed
qed



lemma it_take_direct:
  assumes "\<not> r_is_altrep (it_data it)" "r_data_p (it_data it) = Some (Addr a)" "heap w a = Some ob"
    "0 \<le> it_pos it" "it_pos it + int m \<le> int (length (elts ob))"
  shows "it_take fill m (it, w) =
    (Inr (take m (drop (nat (it_pos it)) (elts ob))), (it\<lparr>it_pos := it_pos it + int m\<rparr>, w))"
  using assms
proof (induction m arbitrary: it)
  case 0
  then show ?case by simp
next
  case (Suc m)
  have d: "it_deref fill (it, w) = (Inr (elts ob ! nat (it_pos it)), (it, w))"
    using Suc.prems by (simp add: it_deref_def ptr_read_def buf_get_def get_elt_def buf_get_def elt_fails_def deref_def Let_def)
  have "nat (it_pos it + 1) = Suc (nat (it_pos it))" using Suc.prems(4) by simp
  then have ih: "it_take fill m (it\<lparr>it_pos := it_pos it + 1\<rparr>, w) =
    (Inr (take m (drop (Suc (nat (it_pos it))) (elts ob))), (it\<lparr>it_pos := it_pos it + int (Suc m)\<rparr>, w))"
    using Suc.IH [of "it\<lparr>it_pos := it_pos it + 1\<rparr>"] Suc.prems by (simp add: add_ac)
  have "nat (it_pos it) < length (elts ob)" using Suc.prems by simp
  then show ?case using d ih by (simp add: take_Suc_drop)
qed

lemma iterate_contents:
  assumes rf: "region_fill fill" and inv: "vec_inv k (v, w)"
    and rg: "r_is_altrep v \<longrightarrow> \<not> region_fails (r_data v) w"
  shows "iterate fill (rvector.truncate v) w =
    (Inr (contents (v, w)),
     w\<lparr>region_calls := region_calls w + (if r_is_altrep v then (nat (r_length v) + 63) div 64 else 0)\<rparr>)"
proof (cases "r_data v = R_NilValue")
  case True
  then have "r_length v = 0" using inv by (simp add: vec_inv_def buf_len_def deref_def)
  then show ?thesis using True
    by (simp add: iterate_def contents_def deref_def rvector.defs)
next
  case False
  from inv have h: "handle_ok k v w" and len: "0 \<le> r_length v" "r_length v \<le> buf_len v w"
    by (auto simp: vec_inv_def)
  from h False obtain a ob c where o: "r_data v = Addr a" "heap w a = Some ob"
    "r_is_altrep v \<or> r_data_p v = Some (Addr a)"
    by (rule handle_okE)
  have le: "r_length v \<le> int (length (elts ob))" using len o by (simp add: buf_len_def deref_def)
  have ct: "contents (v, w) = take (nat (r_length v)) (elts ob)" using o by (simp add: contents_def deref_def)
  show ?thesis
  proof (cases "r_is_altrep v")
    case True
    have "\<exists>it'. it_take fill (nat (r_length v)) (it_begin (rvector.truncate v), w) =
      (Inr (take (nat (r_length v)) (elts ob)),
       (it', w\<lparr>region_calls := region_calls w + (nat (r_length v) + 63) div 64\<rparr>))"
      using it_take_blocks [OF rf, where it = "it_begin (rvector.truncate v)" and a = a and ob = ob
          and w = w] True o le len rg
      by (simp add: it_begin_def rvector.defs region_fails_def)
    then show ?thesis using True ct by (auto simp: iterate_def it_begin_def rvector.defs)
  next
    case False
    have "it_take fill (nat (r_length v)) (it_begin (rvector.truncate v), w) =
      (Inr (take (nat (r_length v)) (elts ob)),
       ((it_begin (rvector.truncate v))\<lparr>it_pos := r_length v\<rparr>, w))"
      using it_take_direct [where it = "it_begin (rvector.truncate v)" and a = a and ob = ob
          and w = w and m = "nat (r_length v)" and fill = fill] False o le len
      by (simp add: it_begin_def rvector.defs)
    then show ?thesis using False ct by (simp add: iterate_def it_begin_def rvector.defs)
  qed
qed

lemma subscript_contents:
  assumes "vec_inv k (v, w)" "0 \<le> i" "i < r_length v"
  shows "subscript v i w = Inr (contents (v, w) ! nat i)"
  using at_contents [OF assms] assms(2,3) by (simp add: at_def subscript_def)

text \<open>C19: A pass of the block iterator over a doubles vector satisfying the invariant
  returns normally with one value per position, and the value at each position is what
  \<open>operator[]\<close> reads there, for ALTREP and materialised vectors alike.\<close>

theorem iteration_matches_subscript:
  assumes "vec_inv doubles (v, w)" and rg: "r_is_altrep v \<longrightarrow> \<not> region_fails (r_data v) w"
  shows "\<exists>xs. fst (iterate fill_buf (rvector.truncate v) w) = Inr xs \<and> int (length xs) = r_length v \<and>
           (\<forall>i. 0 \<le> i \<and> i < r_length v \<longrightarrow> subscript v i w = Inr (xs ! nat i))"
proof -
  have "length (contents (v, w)) = nat (r_length v)" "0 \<le> r_length v"
    using length_contents [OF assms(1)] by auto
  then show ?thesis
    using iterate_contents [OF fill_buf_region assms] subscript_contents [OF assms(1)] by auto
qed

theorem iteration_matches_subscript_witness:
  "\<exists>xs. fst (iterate fill_buf (rvector.truncate ex_v) ex_w) = Inr xs \<and> int (length xs) = r_length ex_v \<and>
     (\<forall>i. 0 \<le> i \<and> i < r_length ex_v \<longrightarrow> subscript ex_v i ex_w = Inr (xs ! nat i))"
  using iteration_matches_subscript [OF ex_inv] by (simp add: ex_v_def)

text \<open>C20: Iterating over an ALTREP doubles vector of length \<open>n\<close> issues exactly
  \<open>\<lceil>n / 64\<rceil>\<close> region reads and changes nothing else in the runtime (200 elements: 4
  calls); over a materialised vector it issues none.\<close>

theorem iteration_region_calls:
  assumes "vec_inv doubles (v, w)" and rg: "r_is_altrep v \<longrightarrow> \<not> region_fails (r_data v) w"
  shows "snd (iterate fill_buf (rvector.truncate v) w) =
    w\<lparr>region_calls := region_calls w + (if r_is_altrep v then (nat (r_length v) + 63) div 64 else 0)\<rparr>"
  using iterate_contents [OF fill_buf_region assms] by simp

theorem iteration_region_calls_witness:
  "region_calls (snd (iterate fill_buf (rvector.truncate alt200_v) alt200_w)) = 4"
proof -
  have "vec_inv doubles (alt200_v, alt200_w)"
    by (simp add: vec_inv_def handle_ok_def buf_len_def rt_wf_def alt200_v_def alt200_w_def
                  doubles_def deref_def)
  moreover have "r_is_altrep alt200_v \<longrightarrow> \<not> region_fails (r_data alt200_v) alt200_w"
    by (simp add: alt200_v_def alt200_w_def region_fails_def)
  ultimately have "snd (iterate fill_buf (rvector.truncate alt200_v) alt200_w) =
      alt200_w\<lparr>region_calls := region_calls alt200_w +
        (if r_is_altrep alt200_v then (nat (r_length alt200_v) + 63) div 64 else 0)\<rparr>"
    by (rule iteration_region_calls)
  then show ?thesis by (simp add: alt200_v_def alt200_w_def)
qed



text \<open>C33: On a valid vector over an ALTREP object whose region method raises an R error,
  the first read of a pass issues one region call, which fails: the doubles iterator,
  whose \<open>fill_buf\<close> runs it under \<open>unwind_protect\<close>, throws \<open>unwind_exception\<close>;
  the logicals iterator, whose \<open>fill_buf\<close> calls \<open>LOGICAL_GET_REGION\<close> directly, lets
  the R error longjmp through the C++ frames.\<close>

theorem region_error_paths:
  assumes inv: "vec_inv k (v, w)" and alt: "r_is_altrep v" "ALTREP (r_data v) w = Inr True"
    and len: "0 < r_length v" and err: "region_fails (r_data v) w"
  shows "iterate fill_buf (rvector.truncate v) w =
           (Inl UnwindException, w\<lparr>region_calls := Suc (region_calls w)\<rparr>) \<and>
         iterate lgl_fill_buf (rvector.truncate v) w =
           (Inl RError, w\<lparr>region_calls := Suc (region_calls w)\<rparr>)"
proof -
  have nn: "r_data v \<noteq> R_NilValue"
    using inv len by (auto simp: vec_inv_def buf_len_def deref_def)
  from inv have "handle_ok k v w" by (simp add: vec_inv_def)
  from this nn obtain a ob where o: "r_data v = Addr a" "heap w a = Some ob" by (rule handle_okE)
  obtain m where m: "nat (r_length v) = Suc m" using len by (metis gr0_implies_Suc zero_less_nat_eq)
  have "alt ob" "a \<in> region_errors w" using alt(2) err o by (simp_all add: ALTREP_def deref_def region_fails_def)
  with o m alt(1) show ?thesis
    by (simp add: iterate_def it_begin_def it_deref_def fill_buf_def lgl_fill_buf_def GET_REGION_def
                  unwind_protect_def deref_def region_fails_def Let_def rvector.defs)
qed

theorem region_error_paths_witness:
  "iterate fill_buf (rvector.truncate alt200_v) (alt200_w\<lparr>region_errors := {0}\<rparr>) =
     (Inl UnwindException, alt200_w\<lparr>region_errors := {0}, region_calls := 1\<rparr>) \<and>
   iterate lgl_fill_buf (rvector.truncate alt200_v) (alt200_w\<lparr>region_errors := {0}\<rparr>) =
     (Inl RError, alt200_w\<lparr>region_errors := {0}, region_calls := 1\<rparr>)"
proof -
  have "vec_inv doubles (alt200_v, alt200_w\<lparr>region_errors := {0}\<rparr>)" "r_is_altrep alt200_v"
    "ALTREP (r_data alt200_v) (alt200_w\<lparr>region_errors := {0}\<rparr>) = Inr True" "0 < r_length alt200_v"
    "region_fails (r_data alt200_v) (alt200_w\<lparr>region_errors := {0}\<rparr>)"
    by (simp_all add: vec_inv_def handle_ok_def buf_len_def rt_wf_def alt200_v_def alt200_w_def
                      doubles_def deref_def ALTREP_def region_fails_def)
  from region_error_paths [OF this] show ?thesis by (simp add: alt200_w_def)
qed

lemma win_ok_fields [simp]:
  "win_ok ((it :: 'e const_iterator)\<lparr>it_pos := p\<rparr>) w = win_ok it w"
  "win_ok it ((w :: 'e rstate)\<lparr>region_calls := n\<rparr>) = win_ok it w"
  by (simp_all add: win_ok_def deref_def split: sum.split sexp.split option.split)

lemma it_deref_win:
  assumes rf: "region_fill fill" and h: "r_is_altrep (it_data it)" "r_data (it_data it) = Addr a"
    "heap w a = Some ob" "a \<notin> region_errors w" "r_length (it_data it) \<le> int (length (elts ob))"
    and p: "0 \<le> it_pos it" "it_pos it < r_length (it_data it)" and i: "win_ok it w"
    and d: "it_deref fill (it, w) = (x, (it1, w1))"
  shows "win_ok it1 w1 \<and> it_data it1 = it_data it \<and> it_pos it1 = it_pos it \<and>
         w1 = w\<lparr>region_calls := region_calls w1\<rparr>"
proof (cases "it_pos it < it_block_start it \<or> it_block_start it + it_length it \<le> it_pos it")
  case False
  with h(1) d i show ?thesis by (simp add: it_deref_def Let_def)
next
  case True
  let ?c = "min 64 (r_length (it_data it) - it_pos it)"
  have f: "fill (it_pos it) (it, w) =
       (Inr (), (it\<lparr>it_length := ?c,
                    it_buf := take (nat ?c) (drop (nat (it_pos it)) (elts ob)) @ drop (nat ?c) (it_buf it),
                    it_block_start := it_pos it\<rparr>,
                 w\<lparr>region_calls := Suc (region_calls w)\<rparr>))"
    using rf h p unfolding region_fill_def by auto
  have "length (it_buf it) = 64" using i h by (simp add: win_ok_def deref_def)
  moreover have "length (take (nat ?c) (drop (nat (it_pos it)) (elts ob))) = nat ?c" using h p by simp
  moreover have "it1 = it\<lparr>it_length := ?c,
                    it_buf := take (nat ?c) (drop (nat (it_pos it)) (elts ob)) @ drop (nat ?c) (it_buf it),
                    it_block_start := it_pos it\<rparr> \<and> w1 = w\<lparr>region_calls := Suc (region_calls w)\<rparr>"
    using h(1) True d f by (simp add: it_deref_def Let_def)
  ultimately show ?thesis using h(2,3,5) p
    by (simp add: win_ok_def deref_def)
qed

lemma it_take_win:
  assumes rf: "region_fill fill" and h: "r_is_altrep (it_data it)" "r_data (it_data it) = Addr a"
    "heap w a = Some ob" "a \<notin> region_errors w" "r_length (it_data it) \<le> int (length (elts ob))"
    and p: "0 \<le> it_pos it" "it_pos it + int n \<le> r_length (it_data it)" and i: "win_ok it w"
    and t: "it_take fill n (it, w) = (r, (it', w'))"
  shows "win_ok it' w' \<and> w' = w\<lparr>region_calls := region_calls w'\<rparr>"
  using h p i t
proof (induction n arbitrary: it w r it' w')
  case 0
  then show ?case by simp
next
  case (Suc n)
  obtain x it1 w1 where d: "it_deref fill (it, w) = (x, (it1, w1))" by (metis prod.exhaust)
  from it_deref_win [OF rf Suc.prems(1-5) Suc.prems(6) _ Suc.prems(8) d] Suc.prems(7)
  have s1: "win_ok it1 w1" "it_data it1 = it_data it" "it_pos it1 = it_pos it"
    "w1 = w\<lparr>region_calls := region_calls w1\<rparr>" by auto
  show ?case
  proof (cases x)
    case (Inl e)
    with Suc.prems(9) d s1 show ?thesis by simp
  next
    case (Inr y)
    with Suc.prems(9) d obtain r' where
      t': "it_take fill n (it1\<lparr>it_pos := it_pos it1 + 1\<rparr>, w1) = (r', (it', w'))"
      by (auto split: sum.splits prod.splits)
    have "heap w1 a = Some ob" "a \<notin> region_errors w1" using Suc.prems(3,4) s1(4)
      by (metis rstate.select_convs rstate.surjective rstate.update_convs(6))+
    then have "win_ok it' w' \<and> w' = w1\<lparr>region_calls := region_calls w'\<rparr>"
      using Suc.IH [OF _ _ _ _ _ _ _ _ t'] Suc.prems s1 by simp
    with s1(4) show ?thesis by (metis rstate.update_convs(6) rstate.surjective)
  qed
qed

text \<open>C34: Every state a pass of the doubles block iterator goes through, over a valid
  non-empty ALTREP vector whose region method does not fail, satisfies the window
  invariant of the specification: the buffered window lies inside the vector's object,
  holds at most 64 elements, and its buffer is an exact copy of that part of the object.\<close>

theorem iteration_keeps_window:
  assumes inv: "vec_inv k (v, w)" and alt: "r_is_altrep v" and rg: "\<not> region_fails (r_data v) w"
    and len: "0 < r_length v" and n: "n \<le> nat (r_length v)"
  shows "win_ok (fst (snd (it_take fill_buf n (it_begin (rvector.truncate v), w))))
                (snd (snd (it_take fill_buf n (it_begin (rvector.truncate v), w))))"
proof -
  have nn: "r_data v \<noteq> R_NilValue" using inv len by (auto simp: vec_inv_def buf_len_def deref_def)
  from inv have "handle_ok k v w" and l: "r_length v \<le> buf_len v w" by (auto simp: vec_inv_def)
  from this(1) nn obtain a ob where o: "r_data v = Addr a" "heap w a = Some ob" by (rule handle_okE)
  obtain r it' w' where t: "it_take fill_buf n (it_begin (rvector.truncate v), w) = (r, (it', w'))"
    by (metis prod.exhaust)
  have "win_ok it' w'"
    by (rule conjunct1 [OF it_take_win [OF fill_buf_region _ _ _ _ _ _ _ _ t]])
       (use alt o rg l n len in \<open>simp_all add: it_begin_def rvector.defs region_fails_def buf_len_def
                                       deref_def win_ok_def\<close>)
  with t show ?thesis by simp
qed

theorem iteration_keeps_window_witness:
  "win_ok (fst (snd (it_take fill_buf 100 (it_begin (rvector.truncate alt200_v), alt200_w))))
          (snd (snd (it_take fill_buf 100 (it_begin (rvector.truncate alt200_v), alt200_w))))"
proof -
  have "vec_inv doubles (alt200_v, alt200_w)" "r_is_altrep alt200_v"
    "\<not> region_fails (r_data alt200_v) alt200_w" "0 < r_length alt200_v" "100 \<le> nat (r_length alt200_v)"
    by (simp_all add: vec_inv_def handle_ok_def buf_len_def rt_wf_def alt200_v_def alt200_w_def
                      doubles_def deref_def region_fails_def)
  from iteration_keeps_window [OF this] show ?thesis .
qed

end
