(* ===== verification/Growth.thy ===== *)
theory Growth
  imports Lifecycle
begin

text \<open>
  Sequences of \<open>push_back\<close> calls: the memory that the doubling policy of
  \<open>push_back\<close> consumes, the test of the specification that pushes many values
  from an empty vector and reads every one back with \<open>at\<close>, and the potential
  \<open>capacity_ + free memory\<close>, which no step of a run increases (it bounds the
  capacity by the memory the runtime started with).
\<close>

text \<open>The client loop \<open>for (x : xs) v.push_back(x);\<close>: it stops at the first
  exception, and does not return if a \<open>push_back\<close> does not.\<close>

fun push_all :: "'e kind \<Rightarrow> 'e list \<Rightarrow> 'e vstate \<Rightarrow> ((error + unit) \<times> 'e vstate) option" where
  "push_all k [] s = Some (Inr (), s)"
| "push_all k (x # xs) s = (case push_back k x s of
      None \<Rightarrow> None
    | Some (Inl e, s') \<Rightarrow> Some (Inl e, s')
    | Some (Inr u, s') \<Rightarrow> push_all k xs s')"

text \<open>A runtime with room for 4000 elements, and 1000 distinct doubles to push.\<close>

definition w4000 :: "64 word rstate" where
  "w4000 = \<lparr>heap = Map.empty, next_addr = 0, preserved = [], next_cell = 0, mem_avail = 4000,
            region_calls = 0,
            region_errors = {}, elt_errors = {}\<rparr>"

definition xs1000 :: "64 word list" where
  "xs1000 = map word_of_nat [0..<1000]"

lemma reserve_mem:
  assumes inv: "handle_ok k v w" and res: "reserve k n (v, w) = (Inr u, (v', w'))"
  shows "int (mem_avail w') = int (mem_avail w) - (if n = buf_len v w then 0 else n)"
proof (cases "r_data v = R_NilValue")
  case True
  with inv res show ?thesis
    by (auto simp: handle_ok_def reserve_def Rf_allocVector_def buf_len_def rt_simps split: if_splits)
next
  case False
  with inv obtain a ob where facts: "r_data v = Addr a" "heap w a = Some ob"
    by (rule handle_okE)
  with res show ?thesis
    by (auto simp: reserve_def Rf_xlengthgets_def Rf_allocVector_def buf_len_def rt_simps Let_def
             split: if_splits prod.splits sum.splits token.splits)
qed

lemma grow_mem:
  assumes inv: "vec_inv k (v, w)" and g: "grow k (v, w) = Some (Inr u, (v', w'))"
  shows "w_capacity v' = (if r_length v = w_capacity v then max 1 (2 * w_capacity v) else w_capacity v) \<and>
    int (mem_avail w') = int (mem_avail w) - (if r_length v = w_capacity v then max 1 (2 * w_capacity v) else 0)"
proof (cases "w_capacity v \<le> r_length v")
  case False
  with inv g show ?thesis by (simp add: grow.simps)
next
  case True
  define v1 where "v1 = (if w_capacity v = 0 then v else v\<lparr>w_capacity := w_capacity v * 2\<rparr>)"
  define arg where "arg = (if w_capacity v = 0 then 1 else w_capacity v * 2)"
  from inv True have eq: "r_length v = w_capacity v" "0 \<le> w_capacity v" "w_capacity v = buf_len v w"
    "handle_ok k v w"
    by (auto simp: vec_inv_def)
  obtain r v'' w'' where res: "reserve k arg (v1, w) = (r, (v'', w''))"
    by (metis prod.exhaust)
  have unfold: "grow k (v, w) = (case reserve k arg (v1, w) of
                   (Inl e, s') \<Rightarrow> Some (Inl e, s') | (Inr u, s') \<Rightarrow> grow k s')"
    using True by (simp add: grow.simps [of k "(v, w)"] v1_def arg_def Let_def)
  with g res obtain u' where r: "r = Inr u'" by (cases r) auto
  have h1: "handle_ok k v1 w" "buf_len v1 w = buf_len v w" "r_length v1 = r_length v"
    using eq by (simp_all add: v1_def)
  have "handle_ok k v'' w'' \<and> buf_len v'' w'' = arg \<and> w_capacity v'' = arg \<and>
        r_length v'' = r_length v1 \<and> contents (v'', w'') = contents (v1, w)"
    by (rule reserve_success [OF h1(1) _ _ _ res [unfolded r]]) (use eq h1 in \<open>auto simp: arg_def\<close>)
  moreover have "r_length v < arg" using eq by (auto simp: arg_def)
  ultimately have "grow k (v'', w'') = Some (Inr (), (v'', w''))"
    using h1 by (simp add: grow.simps)
  with unfold res r g have vw: "(v', w') = (v'', w'')" by simp
  have m: "int (mem_avail w'') = int (mem_avail w) - (if arg = buf_len v1 w then 0 else arg)"
    by (rule reserve_mem [OF h1(1) res [unfolded r]])
  have "arg \<noteq> buf_len v1 w" "arg = max 1 (2 * w_capacity v)" using eq h1 by (auto simp: arg_def)
  with vw m \<open>handle_ok k v'' w'' \<and> _\<close> eq show ?thesis by auto
qed

lemma push_back_mem:
  assumes inv: "vec_inv k (v, w)" and pb: "push_back k x (v, w) = Some (Inr u, (v', w'))"
  shows "r_length v' = r_length v + 1 \<and>
    w_capacity v' = (if r_length v = w_capacity v then max 1 (2 * w_capacity v) else w_capacity v) \<and>
    int (mem_avail w') = int (mem_avail w) - (if r_length v = w_capacity v then max 1 (2 * w_capacity v) else 0)"
proof -
  from pb obtain v1 w1 u1 where g: "grow k (v, w) = Some (Inr u1, (v1, w1))"
    by (auto simp: push_back_def split: option.splits sum.splits prod.splits)
  from grow_vec_inv [OF inv g] have l: "r_length v1 = r_length v" by simp
  from pb g have "v' = v1\<lparr>r_length := r_length v1 + 1\<rparr> \<and> mem_avail w' = mem_avail w1"
    by (auto simp: push_back_def set_elt_def buf_set_def elt_fails_def ptr_write_def buf_set_def put_obj_def rt_simps
             split: if_splits sum.splits option.splits sexp.splits)
  with grow_mem [OF inv g] l show ?thesis by simp
qed

lemma push_all_ok:
  assumes "vec_inv k (v, w)"
    and "4 * (r_length v + int (length xs)) - 2 * w_capacity v \<le> int (mem_avail w)"
  shows "\<exists>v' w'. push_all k xs (v, w) = Some (Inr (), (v', w')) \<and> vec_inv k (v', w') \<and>
           contents (v', w') = contents (v, w) @ xs"
  using assms
proof (induction xs arbitrary: v w)
  case Nil
  then show ?case by simp
next
  case (Cons x xs)
  have b: "0 \<le> r_length v" "r_length v \<le> w_capacity v" using Cons.prems(1) by (auto simp: vec_inv_def)
  have "r_length v = w_capacity v \<longrightarrow> max 1 (2 * w_capacity v) \<le> int (mem_avail w)"
    using Cons.prems(2) b by auto
  from push_back_succeeds [OF Cons.prems(1) this, where x = x] obtain v1 w1 where
    pb: "push_back k x (v, w) = Some (Inr (), (v1, w1))" by auto
  from push_back_vec_inv [OF Cons.prems(1) pb] have i1: "vec_inv k (v1, w1)"
    "contents (v1, w1) = contents (v, w) @ [x]" by auto
  from push_back_mem [OF Cons.prems(1) pb] have m:
    "r_length v1 = r_length v + 1"
    "w_capacity v1 = (if r_length v = w_capacity v then max 1 (2 * w_capacity v) else w_capacity v)"
    "int (mem_avail w1) = int (mem_avail w) - (if r_length v = w_capacity v then max 1 (2 * w_capacity v) else 0)"
    by auto
  have "4 * (r_length v1 + int (length xs)) - 2 * w_capacity v1 \<le> int (mem_avail w1)"
    using Cons.prems(2) b m by (auto split: if_splits)
  from Cons.IH [OF i1(1) this] obtain v' w' where
    "push_all k xs (v1, w1) = Some (Inr (), (v', w'))" "vec_inv k (v', w')"
    "contents (v', w') = contents (v1, w1) @ xs" by blast
  with pb i1(2) show ?case by simp
qed

text \<open>The doubling policy from an empty vector keeps the capacity below twice the length
  and has consumed \<open>1 + 2 + ... + capacity = 2 * capacity - 1\<close> elements of memory.\<close>

lemma push_all_doubling:
  assumes "vec_inv k (v, w)" "push_all k xs (v, w) = Some (Inr u, (v', w'))"
    and "(w_capacity v = 0 \<and> r_length v = 0) \<or> (0 < r_length v \<and> w_capacity v < 2 * r_length v)"
  shows "((w_capacity v' = 0 \<and> r_length v' = 0) \<or> (0 < r_length v' \<and> w_capacity v' < 2 * r_length v')) \<and>
    r_length v' = r_length v + int (length xs) \<and>
    int (mem_avail w) - int (mem_avail w') = max 0 (2 * w_capacity v' - 1) - max 0 (2 * w_capacity v - 1)"
  using assms
proof (induction xs arbitrary: v w)
  case Nil
  then show ?case by simp
next
  case (Cons x xs)
  from Cons.prems(2) obtain u1 v1 w1 where pb: "push_back k x (v, w) = Some (Inr u1, (v1, w1))"
    and rest: "push_all k xs (v1, w1) = Some (Inr u, (v', w'))"
    by (auto split: option.splits sum.splits)
  have b: "0 \<le> r_length v" "r_length v \<le> w_capacity v" using Cons.prems(1) by (auto simp: vec_inv_def)
  from push_back_vec_inv [OF Cons.prems(1) pb] have i1: "vec_inv k (v1, w1)" by simp
  from push_back_mem [OF Cons.prems(1) pb] have m:
    "r_length v1 = r_length v + 1"
    "w_capacity v1 = (if r_length v = w_capacity v then max 1 (2 * w_capacity v) else w_capacity v)"
    "int (mem_avail w1) = int (mem_avail w) - (if r_length v = w_capacity v then max 1 (2 * w_capacity v) else 0)"
    by auto
  have p1: "(w_capacity v1 = 0 \<and> r_length v1 = 0) \<or> (0 < r_length v1 \<and> w_capacity v1 < 2 * r_length v1)"
    using Cons.prems(3) b m by (auto split: if_splits)
  from Cons.IH [OF i1 rest p1] have ih:
    "(w_capacity v' = 0 \<and> r_length v' = 0) \<or> (0 < r_length v' \<and> w_capacity v' < 2 * r_length v')"
    "r_length v' = r_length v1 + int (length xs)"
    "int (mem_avail w1) - int (mem_avail w') = max 0 (2 * w_capacity v' - 1) - max 0 (2 * w_capacity v1 - 1)"
    by auto
  have "int (mem_avail w) - int (mem_avail w1) = max 0 (2 * w_capacity v1 - 1) - max 0 (2 * w_capacity v - 1)"
    using Cons.prems(3) b m by (auto split: if_splits)
  with ih m show ?case by simp
qed

text \<open>C22: Pushing any sequence of values onto a vector satisfying the invariant, with
  memory for the doubling policy (four elements per final element, less twice the
  current capacity), returns normally, and afterwards \<open>at\<close> reads back every earlier
  element and every pushed value in order (the specification's test: from capacity 0,
  push 1000 values and read all 1000 back).\<close>

theorem push_all_reads_back:
  assumes inv: "vec_inv k (v, w)"
    and mem: "4 * (r_length v + int (length xs)) - 2 * w_capacity v \<le> int (mem_avail w)"
  shows "\<exists>v' w'. push_all k xs (v, w) = Some (Inr (), (v', w')) \<and>
           r_length v' = r_length v + int (length xs) \<and>
           (\<forall>i. 0 \<le> i \<and> i < r_length v' \<longrightarrow> at k v' i w' = Inr ((contents (v, w) @ xs) ! nat i))"
proof -
  from push_all_ok [OF inv mem] obtain v' w' where
    r: "push_all k xs (v, w) = Some (Inr (), (v', w'))" "vec_inv k (v', w')"
       "contents (v', w') = contents (v, w) @ xs" by blast
  have "r_length v' = r_length v + int (length xs)"
    using length_contents [OF inv] length_contents [OF r(2)] r(3) by auto
  moreover have "\<forall>i. 0 \<le> i \<and> i < r_length v' \<longrightarrow> at k v' i w' = Inr ((contents (v, w) @ xs) ! nat i)"
    using at_contents [OF r(2)] r(3) by simp
  ultimately show ?thesis using r(1) by blast
qed

theorem push_all_reads_back_witness:
  "\<exists>v' w'. push_all doubles xs1000 (empty_wvector, w4000) = Some (Inr (), (v', w')) \<and>
     r_length v' = 1000 \<and>
     (\<forall>i. 0 \<le> i \<and> i < 1000 \<longrightarrow> at doubles v' i w' = Inr (word_of_nat (nat i)))"
proof -
  have inv: "vec_inv doubles (empty_wvector, w4000)"
    by (simp add: vec_inv_def handle_ok_def buf_len_def empty_wvector_def w4000_def rt_wf_def deref_def)
  have mem: "4 * (r_length empty_wvector + int (length xs1000)) - 2 * w_capacity empty_wvector \<le>
      int (mem_avail w4000)"
    by (simp add: empty_wvector_def w4000_def xs1000_def)
  have c: "contents (empty_wvector, w4000) = []"
    by (simp add: contents_def empty_wvector_def deref_def)
  from push_all_reads_back [OF inv mem] c show ?thesis
    by (auto simp: empty_wvector_def xs1000_def)
qed

text \<open>C23: Pushing \<open>n > 0\<close> values onto an empty vector, with four elements of memory
  per value, returns normally with a capacity of at most \<open>2n - 1\<close>, and the runtime
  has allocated exactly \<open>2 * capacity - 1\<close> elements (one buffer of each size
  \<open>1, 2, 4, ..., capacity\<close>): the growth is amortised constant per element.\<close>

theorem push_all_amortised:
  assumes inv: "vec_inv k (v, w)" and e: "r_length v = 0" "w_capacity v = 0"
    and n: "xs \<noteq> []" and mem: "4 * int (length xs) \<le> int (mem_avail w)"
  shows "\<exists>v' w'. push_all k xs (v, w) = Some (Inr (), (v', w')) \<and>
           r_length v' = int (length xs) \<and> r_length v' \<le> w_capacity v' \<and> w_capacity v' < 2 * r_length v' \<and>
           int (mem_avail w) - int (mem_avail w') = 2 * w_capacity v' - 1"
proof -
  have "4 * (r_length v + int (length xs)) - 2 * w_capacity v \<le> int (mem_avail w)"
    using mem e by simp
  from push_all_ok [OF inv this] obtain v' w' where
    r: "push_all k xs (v, w) = Some (Inr (), (v', w'))" "vec_inv k (v', w')" by blast
  from push_all_doubling [OF inv r(1)] e have
    d: "(w_capacity v' = 0 \<and> r_length v' = 0) \<or> (0 < r_length v' \<and> w_capacity v' < 2 * r_length v')"
       "r_length v' = int (length xs)"
       "int (mem_avail w) - int (mem_avail w') = max 0 (2 * w_capacity v' - 1)"
    by auto
  have "r_length v' \<le> w_capacity v'" using r(2) by (simp add: vec_inv_def)
  with d n r(1) show ?thesis by auto
qed

theorem push_all_amortised_witness:
  "\<exists>v' w'. push_all doubles xs1000 (empty_wvector, w4000) = Some (Inr (), (v', w')) \<and>
     r_length v' = 1000 \<and> w_capacity v' < 2000 \<and> int (mem_avail w') = 4001 - 2 * w_capacity v'"
proof -
  have inv: "vec_inv doubles (empty_wvector, w4000)"
    by (simp add: vec_inv_def handle_ok_def buf_len_def empty_wvector_def w4000_def rt_wf_def deref_def)
  have "r_length empty_wvector = 0" "w_capacity empty_wvector = 0" "xs1000 \<noteq> []"
    "4 * int (length xs1000) \<le> int (mem_avail w4000)"
    by (simp_all add: empty_wvector_def w4000_def xs1000_def)
  from push_all_amortised [OF inv this] show ?thesis
    by (auto simp: xs1000_def w4000_def)
qed

lemma buf_set_mem: "buf_set x i y w = Inr w' \<Longrightarrow> mem_avail w' = mem_avail w"
  by (auto simp: buf_set_def put_obj_def split: sum.splits if_splits sexp.splits)

lemma set_elt_mem: "set_elt x i y w = Inr w' \<Longrightarrow> mem_avail w' = mem_avail w"
  by (auto simp: set_elt_def dest: buf_set_mem split: sum.splits if_splits)

lemma proxy_assign_mem: "proxy_assign px y w = Inr w' \<Longrightarrow> mem_avail w' = mem_avail w"
  by (auto simp: proxy_assign_def ptr_write_def dest: set_elt_mem buf_set_mem split: if_splits option.splits)

text \<open>Capacity plus free memory never grows along a step: a new buffer is paid for
  with at least its size in memory.\<close>

lemma vstep_cap_mem:
  assumes "vstep k s op s'" "vec_inv k s"
  shows "w_capacity (fst s') + int (mem_avail (snd s')) \<le> w_capacity (fst s) + int (mem_avail (snd s))"
  using assms
proof (induction rule: vstep.induct)
  case (push x s u s')
  obtain v w where s: "s = (v, w)" by (cases s)
  obtain v' w' where s': "s' = (v', w')" by (cases s')
  from push_back_mem [OF push.prems [unfolded s] push.hyps [unfolded s s']] push.prems s
  show ?case by (auto simp: s' vec_inv_def split: if_splits)
next
  case (reserve s n r s')
  obtain v w where s: "s = (v, w)" by (cases s)
  obtain v' w' where s': "s' = (v', w')" by (cases s')
  from reserve.prems s have h: "handle_ok k v w" "0 \<le> w_capacity v" "w_capacity v = buf_len v w"
    by (auto simp: vec_inv_def)
  show ?case
  proof (cases r)
    case (Inl e)
    with reserve.hyps(2) s s' reserve_failure [OF h(1), of n e s'] show ?thesis by simp
  next
    case (Inr u)
    with reserve.hyps(2) s s' have res: "reserve k n (v, w) = (Inr u, (v', w'))" by simp
    from reserve_mem [OF h(1) res] reserve_fields [OF res] h show ?thesis
      by (auto simp: s s' split: if_splits)
  qed
next
  case (assign v pos px x w w')
  then show ?case by (simp add: proxy_assign_mem)
next
  case (collect v w roots)
  then show ?case by (simp add: R_gc_def)
qed

lemma runs_cap_mem:
  assumes "runs k s ops s'" "vec_inv k s"
  shows "w_capacity (fst s') + int (mem_avail (snd s')) \<le> w_capacity (fst s) + int (mem_avail (snd s))"
  using assms
proof (induction rule: runs.induct)
  case (nil s)
  then show ?case by simp
next
  case (cons s op s1 ops s2)
  from vstep_vec_inv [OF cons.hyps(1) cons.prems] cons.IH vstep_cap_mem [OF cons.hyps(1) cons.prems]
  show ?case by simp
qed

text \<open>C31: \<open>reserve(n)\<close> with a negative \<open>n\<close> on a vector satisfying the invariant
  throws \<open>unwind_exception\<close> (R rejects the negative length inside \<open>safe[]\<close>) and
  leaves the vector and the runtime exactly as they were, whether the vector still holds
  \<open>R_NilValue\<close> or a handle.\<close>

theorem reserve_negative_throws:
  assumes inv: "vec_inv k (v, w)" and n: "n < 0"
  shows "reserve k n (v, w) = (Inl UnwindException, (v, w))"
proof (cases "r_data v = R_NilValue")
  case True
  with n show ?thesis by (simp add: reserve_def Rf_allocVector_def rt_simps)
next
  case False
  from inv have "handle_ok k v w" by (simp add: vec_inv_def)
  from this False obtain a ob where "r_data v = Addr a" "heap w a = Some ob"
    by (rule handle_okE)
  with n show ?thesis by (simp add: reserve_def Rf_xlengthgets_def rt_simps)
qed

theorem reserve_negative_throws_witness:
  "reserve doubles (-1) (ex_v, ex_w) = (Inl UnwindException, (ex_v, ex_w))"
  using reserve_negative_throws [OF ex_inv] by simp

lemma push_back_grow:
  assumes "push_back k x (v, w) = Some (Inr u, (v', w'))"
  obtains u1 v1 w1 where "grow k (v, w) = Some (Inr u1, (v1, w1))" "r_data v' = r_data v1"
  using assms by (auto simp: push_back_def split: option.splits sum.splits prod.splits if_splits)

text \<open>A growth step on a full, non-empty vector moves the data to the object the runtime
  allocates next.\<close>

lemma grow_full_moves:
  assumes inv: "vec_inv k (v, w)" and full: "r_length v = w_capacity v" "0 < w_capacity v"
    and g: "grow k (v, w) = Some (Inr u, (v1, w1))"
  shows "r_data v1 = Addr (next_addr w)"
proof -
  let ?v = "v\<lparr>w_capacity := w_capacity v * 2\<rparr>"
  from inv have h: "handle_ok k ?v w" "w_capacity v = buf_len v w" by (simp_all add: vec_inv_def)
  obtain rr v'' w'' where res: "reserve k (w_capacity v * 2) (?v, w) = (rr, (v'', w''))"
    by (metis prod.exhaust)
  have unfold: "grow k (v, w) = (case rr of Inl e \<Rightarrow> Some (Inl e, (v'', w'')) | Inr u \<Rightarrow> grow k (v'', w''))"
    using full res by (simp add: grow.simps [of k "(v, w)"] Let_def split: sum.split)
  with g obtain u' where rr: "rr = Inr u'" by (cases rr) auto
  have n: "w_capacity v * 2 \<noteq> buf_len ?v w" using h(2) full by simp
  from reserve_moves [OF h(1) n res [unfolded rr]] have d: "r_data v'' = Addr (next_addr w)" by simp
  from reserve_fields [OF res] rr full have "r_length v'' < w_capacity v''" by simp
  then have "grow k (v'', w'') = Some (Inr (), (v'', w''))" by (simp add: grow.simps)
  with unfold rr g d show ?thesis by simp
qed

text \<open>C32: Growth invalidates what was obtained before it, as the specification leaves
  to the caller: a push_back onto a full, non-empty vector that succeeds relocates its data
  to a new handle and drops the protection of the old one, so once the collector has run, a
  proxy of \<open>operator[]\<close> taken before the push reads freed memory, while \<open>at\<close> on the
  vector still reads the element it held.\<close>

theorem stale_proxy_after_growth:
  assumes inv: "vec_inv k (v, w)" and full: "r_length v = w_capacity v" "0 < w_capacity v"
    and pos: "0 \<le> pos" "pos < r_length v"
    and pb: "push_back k x (v, w) = Some (Inr u, (v', w'))"
  shows "r_data v' \<noteq> r_data v \<and> protect_count (r_data v) w' = 0 \<and>
         proxy_get (w_subscript v pos) (R_gc [] w') = Inl Undefined \<and>
         at k v' pos (R_gc [] w') = at k v pos w"
proof -
  from inv have h: "handle_ok k v w" "w_capacity v = buf_len v w" by (simp_all add: vec_inv_def)
  with full have nn: "r_data v \<noteq> R_NilValue" by (auto simp: buf_len_def deref_def)
  with h(1) obtain a ob where f: "r_data v = Addr a" "a < next_addr w"
    "r_is_altrep v \<or> r_data_p v = Some (Addr a)" by (rule handle_okE)
  from push_back_grow [OF pb] obtain u1 v1 w1 where
    g: "grow k (v, w) = Some (Inr u1, (v1, w1))" and d: "r_data v' = r_data v1" .
  have moved: "r_data v' = Addr (next_addr w)" using grow_full_moves [OF inv full g] d by simp
  with f have ne: "r_data v' \<noteq> r_data v" by simp
  from push_back_vec_inv [OF inv pb] have i': "vec_inv k (v', w')"
    and c: "contents (v', w') = contents (v, w) @ [x]" by auto
  from i' have "handle_ok k v' w'" by (simp add: vec_inv_def)
  with moved obtain c' where p: "preserved w' = [(c', r_data v')]"
    by (auto elim: handle_okE)
  with ne have pc: "protect_count (r_data v) w' = 0" by (simp add: protect_count_def)
  have freed: "heap (R_gc [] w') a = None" using p ne f(1) by (auto simp: R_gc_def)
  have "proxy_get (w_subscript v pos) (R_gc [] w') = Inl Undefined"
  proof -
    have "deref (Addr a) (R_gc [] w') = Inl Undefined" using freed by (simp add: deref_def)
    with f(1,3) show ?thesis
      by (cases "r_is_altrep v") (simp_all add: proxy_get_def w_subscript_def get_elt_def ptr_read_def buf_get_def)
  qed
  moreover have "at k v' pos (R_gc [] w') = at k v pos w"
  proof -
    from vec_inv_gc [OF i', of "[]"] have g': "vec_inv k (v', R_gc [] w')"
      "contents (v', R_gc [] w') = contents (v', w')" by auto
    have "nat pos < length (contents (v, w))" using length_contents [OF inv] pos by simp
    moreover have "pos < r_length v'"
    proof -
      have "Suc (nat (r_length v)) = nat (r_length v')" "0 \<le> r_length v'"
        using length_contents [OF i'] length_contents [OF inv] c by auto
      with pos show ?thesis by linarith
    qed
    ultimately show ?thesis
      using at_contents [OF g'(1) pos(1)] at_contents [OF inv pos] g'(2) c by (simp add: nth_append)
  qed
  ultimately show ?thesis using ne pc by blast
qed

theorem stale_proxy_after_growth_witness:
  "case push_back doubles 0x4000000000000000 (ex_v, ex_w) of
     Some (Inr u, (v', w')) \<Rightarrow>
       r_data v' \<noteq> r_data ex_v \<and> protect_count (r_data ex_v) w' = 0 \<and>
       proxy_get (w_subscript ex_v 0) (R_gc [] w') = Inl Undefined \<and>
       at doubles v' 0 (R_gc [] w') = Inr 0x3FF0000000000000
   | _ \<Rightarrow> False"
proof -
  obtain v' w' where pb: "push_back doubles 0x4000000000000000 (ex_v, ex_w) = Some (Inr (), (v', w'))"
    by (simp add: push_back_def grow.simps reserve_def Rf_xlengthgets_def Rf_allocVector_def
                  ex_v_def ex_w_def doubles_def resize_def rt_simps)
  have "r_length ex_v = w_capacity ex_v" "0 < w_capacity ex_v" "0 \<le> (0::int)" "0 < r_length ex_v"
    by (simp_all add: ex_v_def)
  from stale_proxy_after_growth [OF ex_inv this pb] pb show ?thesis
    by (simp add: at_def ex_v_def ex_w_def rt_simps)
qed

end
