(* ===== verification/Refinement.thy ===== *)
theory Refinement
  imports Lifecycle
begin

text \<open>
  The abstract specification of a writable vector: a list of elements, on which
  \<open>push_back\<close> appends, a growing \<open>reserve\<close> and a garbage collection change
  nothing, and an assignment through the proxy updates one position. The concrete
  step relation \<open>vstep\<close> of Lifecycle refines it through the abstraction
  \<open>contents\<close>: every step maps the abstract list as the specification says, and so
  does every finite run of steps.
\<close>

fun abs_step :: "'e vop \<Rightarrow> 'e list \<Rightarrow> 'e list" where
  "abs_step (PushBack x) xs = xs @ [x]"
| "abs_step (Reserve n) xs = xs"
| "abs_step (Assign pos x) xs = xs[nat pos := x]"
| "abs_step (Collect roots) xs = xs"

text \<open>A run from the empty vector: two pushes with a collection between them, then an
  assignment through the proxy of \<open>at(0)\<close>.\<close>

definition ex_ops :: "64 word vop list" where
  "ex_ops = [PushBack 0x3FF0000000000000, Collect [], PushBack 0x4000000000000000,
             Assign 0 0x4008000000000000]"


lemma vstep_contents:
  assumes "vstep k s op s'" "vec_inv k s"
  shows "contents s' = abs_step op (contents s)"
  using assms
proof (induction rule: vstep.induct)
  case (push x s u s')
  then show ?case by (simp add: push_back_vec_inv)
next
  case (reserve s n r s')
  obtain v w where s: "s = (v, w)" by (cases s)
  obtain v' w' where s': "s' = (v', w')" by (cases s')
  from reserve.prems s have h: "handle_ok k v w" "0 \<le> r_length v" "r_length v \<le> buf_len v w"
    "buf_len v w \<le> n"
    using reserve.hyps(1) by (auto simp: vec_inv_def)
  show ?case
  proof (cases r)
    case (Inl e)
    with reserve.hyps(2) s s' reserve_failure [OF h(1), of n e s'] show ?thesis by simp
  next
    case (Inr u)
    with reserve.hyps(2) s s' reserve_success [OF h, of u v' w'] show ?thesis by simp
  qed
next
  case (assign v pos px x w w')
  then have "0 \<le> pos" "pos < r_length v" "px = w_subscript v pos"
    by (auto simp: w_at_def split: if_splits)
  with assign proxy_assign_slot [of k v w pos x] show ?case by auto
next
  case (collect v w roots)
  then show ?case by (simp add: vec_inv_gc)
qed

lemma runs_contents:
  assumes "runs k s ops s'" "vec_inv k s"
  shows "vec_inv k s' \<and> contents s' = fold abs_step ops (contents s)"
  using assms
proof (induction rule: runs.induct)
  case (nil s)
  then show ?case by simp
next
  case (cons s op s1 ops s2)
  from vstep_vec_inv [OF cons.hyps(1) cons.prems] have "vec_inv k s1" .
  with cons.IH vstep_contents [OF cons.hyps(1) cons.prems] show ?case by simp
qed

lemma ex_run: "\<exists>s'. runs doubles (empty_wvector, w_init) ex_ops s'"
proof -
  obtain s1 where p1: "push_back doubles 0x3FF0000000000000 (empty_wvector, w_init) = Some (Inr (), s1)"
    by (simp add: push_back_def grow.simps reserve_def empty_wvector_def w_init_def doubles_def
                  Rf_allocVector_def rt_simps)
  obtain v1 w1 where s1: "s1 = (v1, w1)" by (cases s1)
  obtain s3 where p3: "push_back doubles 0x4000000000000000 (v1, R_gc [] w1) = Some (Inr (), s3)"
    using p1 s1 by (auto simp: push_back_def grow.simps reserve_def empty_wvector_def w_init_def
                  doubles_def Rf_allocVector_def Rf_xlengthgets_def R_gc_def rt_simps)
  obtain v3 w3 where s3: "s3 = (v3, w3)" by (cases s3)
  obtain w4 where a: "proxy_assign (w_subscript v3 0) 0x4008000000000000 w3 = Inr w4"
    "w_at doubles v3 0 = Inr (w_subscript v3 0)"
    using p1 s1 p3 s3 by (auto simp: push_back_def grow.simps reserve_def empty_wvector_def w_init_def
                  doubles_def Rf_allocVector_def Rf_xlengthgets_def R_gc_def w_at_def w_subscript_def
                  proxy_assign_def resize_def rt_simps)
  have "runs doubles (empty_wvector, w_init) ex_ops (v3, w4)"
    unfolding ex_ops_def
    using p1 s1 p3 s3 a
    by (blast intro: runs.intros vstep.intros)
  then show ?thesis by blast
qed

text \<open>C24: Every run of client calls and collections from the empty vector refines the
  abstract list specification: the invariant holds at its end and the contents are the
  list obtained by applying each call's abstract effect in order.\<close>

theorem runs_refine_list_spec:
  assumes "rt_wf w" "preserved w = []" "runs k (empty_wvector, w) ops s'"
  shows "vec_inv k s' \<and> contents s' = fold abs_step ops []"
proof -
  have "contents (empty_wvector, w) = []" by (simp add: contents_def empty_wvector_def deref_def)
  with runs_contents [OF assms(3) vec_inv_empty [OF assms(1,2)]] show ?thesis by simp
qed

theorem runs_refine_list_spec_witness:
  "\<exists>s'. runs doubles (empty_wvector, w_init) ex_ops s' \<and> vec_inv doubles s' \<and>
     contents s' = [0x4008000000000000, 0x4000000000000000]"
proof -
  from ex_run obtain s' where r: "runs doubles (empty_wvector, w_init) ex_ops s'" ..
  have "rt_wf w_init" "preserved w_init = []" by (simp_all add: rt_wf_def w_init_def)
  from runs_refine_list_spec [OF this r] have
    "vec_inv doubles s' \<and> contents s' = [0x4008000000000000, 0x4000000000000000]"
    by (simp add: ex_ops_def)
  with r show ?thesis by blast
qed

end
