(* ===== verification/Typing.thy ===== *)
theory Typing
  imports Constructors
begin

text \<open>
  The type discipline of the read path: \<open>valid_type\<close> admits exactly the handles
  whose \<open>TYPEOF\<close> is the kind's \<open>SEXPTYPE\<close>, so the read-only constructor
  \<open>vector(SEXP)\<close> either builds a view of a handle of its own type, with the
  representation flag, data pointer and length read from that handle, or throws
  \<open>type_error(expected, actual)\<close> and builds nothing.
\<close>

lemma valid_type_iff:
  "TYPEOF d w = Inr t \<Longrightarrow>
   valid_type k d w = (if t = ktype k then Inr d else Inl (TypeError (ktype k) t))"
  by (simp add: valid_type_def)

text \<open>C29: For a kind other than \<open>NILSXP\<close> and a handle whose type can be read, the
  read-only constructor succeeds exactly when the handle has the kind's type; the view it
  builds holds that handle unprotected, its \<open>ALTREP\<close> flag, its length, and a data
  pointer to its buffer when materialised; on any other type it throws
  \<open>type_error\<close> naming the expected and the actual type.\<close>

theorem rvector_ctor_type:
  assumes k: "ktype k \<noteq> NILSXP" and t: "TYPEOF d w = Inr t"
  shows "(t = ktype k \<longrightarrow> (\<exists>rv. rvector_ctor k d w = Inr rv \<and> r_data rv = d \<and>
            r_protect rv = NoToken \<and> Rf_xlength d w = Inr (r_length rv) \<and>
            ALTREP d w = Inr (r_is_altrep rv) \<and>
            r_data_p rv = (if r_is_altrep rv then None else Some d))) \<and>
         (t \<noteq> ktype k \<longrightarrow> rvector_ctor k d w = Inl (TypeError (ktype k) t))"
proof (cases "d = R_NilValue")
  case True
  with t k show ?thesis by (auto simp: rvector_ctor_def valid_type_iff TYPEOF_def)
next
  case False
  with t obtain ob where ob: "deref d w = Inr ob" "otype ob = t"
    by (cases "deref d w") (auto simp: TYPEOF_def)
  with False show ?thesis
    by (auto simp: rvector_ctor_def valid_type_def get_p_def DATAPTR_def TYPEOF_def ALTREP_def
                   Rf_xlength_def)
qed

theorem rvector_ctor_type_witness:
  "(\<exists>rv. rvector_ctor doubles (Addr 0) ex_w = Inr rv \<and> r_data rv = Addr 0 \<and> r_protect rv = NoToken \<and>
      Rf_xlength (Addr 0) ex_w = Inr (r_length rv) \<and> ALTREP (Addr 0) ex_w = Inr (r_is_altrep rv) \<and>
      r_data_p rv = (if r_is_altrep rv then None else Some (Addr 0))) \<and>
   rvector_ctor doubles (Addr 0) ex_bad_w = Inl (TypeError REALSXP INTSXP)"
proof -
  have "ktype doubles \<noteq> NILSXP" "TYPEOF (Addr 0) ex_w = Inr REALSXP"
    "TYPEOF (Addr 0) ex_bad_w = Inr INTSXP"
    by (simp_all add: doubles_def TYPEOF_def deref_def ex_w_def ex_bad_w_def)
  with rvector_ctor_type [of doubles "Addr 0" ex_w REALSXP]
       rvector_ctor_type [of doubles "Addr 0" ex_bad_w INTSXP]
  show ?thesis by (simp add: doubles_def)
qed

end
