(* ===== verification/Scope.thy ===== *)
theory Scope
  imports Lifecycle
begin

text \<open>
  A C++ block that owns a writable vector, \<open>{ writable::doubles v(...); op1; op2; ... }\<close>,
  and how it is left. \<open>exec_op\<close> is one client call on the vector (the operations of
  Lifecycle.thy, now with their error results), \<open>run_ops\<close> the statements of the block
  in order, stopping at the first exception, and \<open>scope\<close> the exit of the block: on a
  normal exit and on a C++ exception the stack unwinds and \<open>~vector\<close> releases the
  vector's preserve-list cell; an R error that no \<open>unwind_protect\<close> caught is a
  \<open>longjmp\<close> through the C++ frames, which runs no destructor. \<open>owns\<close> is the part of
  the invariant every call keeps, whatever its arguments (also a shrinking \<open>reserve\<close>
  or a failed \<open>push_back\<close>); under it no call raises a raw R error and every block
  returns with an empty preserve list. When the vector is ALTREP and its class's element
  methods fail, the proxy assignment and the reads do raise one, and the block leaks the
  vector's protection (C35).
\<close>

text \<open>One client call; a C++ exception leaves the vector as the call left it.\<close>

definition exec_op :: "'e kind \<Rightarrow> 'e vop \<Rightarrow> 'e vstate \<Rightarrow> ((error + unit) \<times> 'e vstate) option" where
  "exec_op k op s = (case op of
      PushBack x \<Rightarrow> push_back k x s
    | Reserve n \<Rightarrow> Some (reserve k n s)
    | Assign pos x \<Rightarrow> (case s of (v, w) \<Rightarrow>
        (case w_at k v pos of
           Inl e \<Rightarrow> Some (Inl e, s)
         | Inr px \<Rightarrow> (case proxy_assign px x w of
             Inl e \<Rightarrow> Some (Inl e, s)
           | Inr w' \<Rightarrow> Some (Inr (), (v, w')))))
    | Collect roots \<Rightarrow> (case s of (v, w) \<Rightarrow> Some (Inr (), (v, R_gc roots w))))"

fun run_ops :: "'e kind \<Rightarrow> 'e vop list \<Rightarrow> 'e vstate \<Rightarrow> ((error + unit) \<times> 'e vstate) option" where
  "run_ops k [] s = Some (Inr (), s)"
| "run_ops k (op # ops) s = (case exec_op k op s of
      None \<Rightarrow> None
    | Some (Inl e, s') \<Rightarrow> Some (Inl e, s')
    | Some (Inr u, s') \<Rightarrow> run_ops k ops s')"

text \<open>The exit of the block: \<open>RError\<close> is R's longjmp and skips \<open>vector_dtor\<close>.\<close>

definition scope :: "'e kind \<Rightarrow> 'e vop list \<Rightarrow> 'e vstate \<Rightarrow> ((error + unit) \<times> 'e rstate) option" where
  "scope k ops s = (case run_ops k ops s of
      None \<Rightarrow> None
    | Some (Inl RError, (v', w')) \<Rightarrow> Some (Inl RError, w')
    | Some (r, (v', w')) \<Rightarrow> Some (r, vector_dtor v' w'))"

text \<open>The ownership invariant: the handle is protected by exactly the vector's cell, its
  element methods answer, and the capacity is not negative.\<close>

definition owns :: "'e kind \<Rightarrow> 'e vstate \<Rightarrow> bool" where
  "owns k s = (case s of (v, w) \<Rightarrow> handle_ok k v w \<and> elt_ok v w \<and> 0 \<le> w_capacity v)"

text \<open>The runtime in which the ALTREP class of the object at \<open>a\<close> fails its element
  methods.\<close>

definition with_failing_elt :: "nat \<Rightarrow> 'e rstate \<Rightarrow> 'e rstate" where
  "with_failing_elt a w = w\<lparr>elt_errors := insert a (elt_errors w)\<rparr>"

text \<open>A writable ALTREP doubles vector holding 1.0 and 2.0, protected by cell 0.\<close>

definition altv :: wvector where
  "altv = \<lparr>r_data = Addr 0, r_protect = Cell 0, r_is_altrep = True, r_data_p = None,
           r_length = 2, w_capacity = 2\<rparr>"

definition altw :: "64 word rstate" where
  "altw = \<lparr>heap = [0 \<mapsto> \<lparr>otype = REALSXP, alt = True, elts = [0x3FF0000000000000, 0x4000000000000000],
                           names = None\<rparr>],
           next_addr = 1, preserved = [(0, Addr 0)], next_cell = 1, mem_avail = 0, region_calls = 0,
           region_errors = {}, elt_errors = {}\<rparr>"

section \<open>The ownership invariant is kept by every call\<close>

lemma reserve_owns:
  assumes "owns k (v, w)" and res: "reserve k n (v, w) = (r, s')"
  shows "owns k s' \<and> r \<noteq> Inl RError"
proof (cases r)
  case (Inl e)
  with assms reserve_failure [of k v w n e s'] show ?thesis by (simp add: owns_def)
next
  case (Inr u)
  obtain v' w' where s': "s' = (v', w')" by (cases s')
  from assms have h: "handle_ok k v w" "elt_ok v w" by (simp_all add: owns_def)
  from reserve_handle_ok [OF h(1)] reserve_elt_ok [OF h] reserve_fields [of k n v w r v' w'] res Inr s'
  show ?thesis by (simp add: owns_def)
qed

lemma grow_owns:
  "grow k s = Some r \<Longrightarrow> owns k s \<longrightarrow> owns k (snd r) \<and> fst r \<noteq> Inl RError"
proof (induction rule: grow.raw_induct [rotated, consumes 1])
  case (1 g k s r)
  obtain v w where s: "s = (v, w)" by (cases s)
  show ?case
  proof (cases "w_capacity v \<le> r_length v")
    case False
    with 1(2) s show ?thesis by auto
  next
    case True
    define v' where "v' = (if w_capacity v = 0 then v else v\<lparr>w_capacity := w_capacity v * 2\<rparr>)"
    define arg where "arg = (if w_capacity v = 0 then 1 else w_capacity v * 2)"
    obtain rr s1 where res: "reserve k arg (v', w) = (rr, s1)" by (metis prod.exhaust)
    have body: "(case reserve k arg (v', w) of (Inl e, s') \<Rightarrow> Some (Inl e, s')
                  | (Inr u, s') \<Rightarrow> g k s') = Some r"
      using 1(2) True s by (simp add: v'_def arg_def Let_def)
    show ?thesis
    proof
      assume "owns k s"
      then have "owns k (v', w)" using s by (simp add: owns_def v'_def)
      from reserve_owns [OF this res] have o1: "owns k s1 \<and> rr \<noteq> Inl RError" .
      show "owns k (snd r) \<and> fst r \<noteq> Inl RError"
      proof (cases rr)
        case (Inl e)
        with body res o1 show ?thesis by auto
      next
        case (Inr u)
        with body res have "g k s1 = Some r" by simp
        with 1(1) o1 show ?thesis by blast
      qed
    qed
  qed
qed

lemma slot_write_owns:
  assumes "handle_ok k v w" "elt_ok v w"
    and wr: "(if r_is_altrep v then set_elt (r_data v) i x w else ptr_write (r_data_p v) i x w) = r"
  shows "r \<noteq> Inl RError \<and> (\<forall>w'. r = Inr w' \<longrightarrow> handle_ok k v w' \<and> elt_ok v w')"
proof (cases "r_data v = R_NilValue")
  case True
  with assms show ?thesis
    by (auto simp: handle_ok_def set_elt_def ptr_write_def deref_def split: if_splits)
next
  case False
  with assms(1) obtain a ob where f: "r_data v = Addr a" "heap w a = Some ob"
    "r_data_p v = None \<or> r_data_p v = Some (Addr a)"
    by (rule handle_okE)
  have "handle_ok k v (put_obj (Addr a) (ob\<lparr>elts := xs\<rparr>) w) \<and>
        elt_ok v (put_obj (Addr a) (ob\<lparr>elts := xs\<rparr>) w)" for xs
    using handle_ok_put_obj [OF assms(1) f(1,2)] elt_ok_put_obj [OF f(1,2)] assms(2) by simp
  with f assms(2) wr show ?thesis
    by (auto simp: set_elt_def ptr_write_def buf_set_def deref_def elt_ok_def split: if_splits)
qed

lemma exec_op_owns:
  assumes "owns k s" "exec_op k op s = Some (r, s')"
  shows "owns k s' \<and> r \<noteq> Inl RError"
proof -
  obtain v w where s: "s = (v, w)" by (cases s)
  from assms(1) s have h: "handle_ok k v w" "elt_ok v w" "0 \<le> w_capacity v" by (simp_all add: owns_def)
  show ?thesis
  proof (cases op)
    case (PushBack x)
    from assms(2) PushBack obtain r1 v1 w1 where g: "grow k s = Some (r1, (v1, w1))"
      by (auto simp: exec_op_def push_back_def split: option.splits)
    from grow_owns [OF g] assms(1) have o1: "owns k (v1, w1)" "r1 \<noteq> Inl RError" by auto
    then have h1: "handle_ok k v1 w1" "elt_ok v1 w1" by (simp_all add: owns_def)
    obtain rw where rw: "(if r_is_altrep v1 then set_elt (r_data v1) (r_length v1) x w1
                         else ptr_write (r_data_p v1) (r_length v1) x w1) = rw" by simp
    note sw = slot_write_owns [OF h1 rw]
    show ?thesis
    proof (cases r1)
      case (Inl e)
      with assms(2) PushBack g o1 show ?thesis by (auto simp: exec_op_def push_back_def)
    next
      case (Inr u)
      with assms(2) PushBack g o1 rw sw show ?thesis
        by (auto simp: exec_op_def push_back_def owns_def split: sum.splits)
    qed
  next
    case (Reserve n)
    with assms reserve_owns [of k v w n r s'] s show ?thesis by (simp add: exec_op_def)
  next
    case (Assign pos x)
    show ?thesis
    proof (cases "w_at k v pos")
      case (Inl e)
      with assms Assign s show ?thesis by (auto simp: exec_op_def w_at_def split: if_splits)
    next
      case (Inr px)
      then have px: "px = w_subscript v pos" by (simp add: w_at_def split: if_splits)
      have eq: "proxy_assign px x w =
        (if r_is_altrep v then set_elt (r_data v) pos x w else ptr_write (r_data_p v) pos x w)"
        by (simp add: px proxy_assign_def w_subscript_def)
      note sw = slot_write_owns [OF h(1,2) eq [symmetric]]
      with assms Assign s Inr h show ?thesis
        by (auto simp: exec_op_def owns_def split: sum.splits)
    qed
  next
    case (Collect roots)
    from h(1) have "handle_ok k v (R_gc roots w)"
      by (auto simp: handle_ok_def rt_wf_def R_gc_def deref_def elim!: handle_okE split: sexp.splits option.splits sum.splits token.splits)
    with assms Collect s h elt_ok_gc show ?thesis by (auto simp: exec_op_def owns_def)
  qed
qed

section \<open>Blocks\<close>

lemma run_ops_owns:
  "owns k s \<Longrightarrow> run_ops k ops s = Some (r, s') \<Longrightarrow> owns k s' \<and> r \<noteq> Inl RError"
proof (induction ops arbitrary: s)
  case Nil
  then show ?case by auto
next
  case (Cons op ops)
  then obtain r1 s1 where e: "exec_op k op s = Some (r1, s1)"
    by (auto split: option.splits)
  note o1 = exec_op_owns [OF Cons.prems(1) e]
  show ?case
  proof (cases r1)
    case (Inl e1)
    with Cons.prems e o1 show ?thesis by auto
  next
    case (Inr u)
    with Cons.prems(2) e have "run_ops k ops s1 = Some (r, s')" by simp
    with Cons.IH o1 show ?thesis by blast
  qed
qed

lemma exec_op_returns: "owns k s \<Longrightarrow> exec_op k op s \<noteq> None"
proof -
  assume o: "owns k s"
  obtain v w where s: "s = (v, w)" by (cases s)
  show ?thesis
  proof (cases op)
    case (PushBack x)
    from o s push_back_returns [of v k x w] show ?thesis by (auto simp: exec_op_def owns_def PushBack)
  qed (simp_all add: exec_op_def s split: sum.split)
qed

lemma run_ops_returns: "owns k s \<Longrightarrow> run_ops k ops s \<noteq> None"
proof (induction ops arbitrary: s)
  case (Cons op ops)
  from exec_op_returns [OF Cons.prems, of op] obtain r1 s1 where e: "exec_op k op s = Some (r1, s1)"
    by (cases "exec_op k op s") auto
  with Cons.IH exec_op_owns [OF Cons.prems e] show ?case by (cases r1) auto
qed simp

lemma scope_releases:
  assumes "owns k s"
  shows "\<exists>r w'. scope k ops s = Some (r, w') \<and> preserved w' = [] \<and> r \<noteq> Inl RError"
proof -
  from run_ops_returns [OF assms, of ops] obtain r v' w' where ro: "run_ops k ops s = Some (r, (v', w'))"
    by (metis not_None_eq prod.exhaust)
  from run_ops_owns [OF assms ro] have "handle_ok k v' w'" "r \<noteq> Inl RError" by (auto simp: owns_def)
  with ro handle_ok_dtor [of k v' w'] show ?thesis
    by (cases r) (auto simp: scope_def split: error.splits)
qed

lemma vec_inv_owns: "vec_inv k s \<Longrightarrow> owns k s"
  by (auto simp: vec_inv_def owns_def)

text \<open>C35: The element accessors call the ALTREP methods without \<open>unwind_protect\<close>
  (NOPROTECT in doubles.hpp and logicals.hpp). On a vector satisfying the invariant whose
  ALTREP class then fails its element methods, an assignment through the proxy raises a raw
  R error, so the block owning the vector is left by longjmp with the vector's cell still in
  the preserve list (its protection leaks), and at and the proxy conversion raise the same
  error; with the methods answering, the same block returns and releases every protection.\<close>

theorem elt_error_leaks_protection:
  assumes inv: "vec_inv k (v, w)" and alt: "r_is_altrep v" "r_data v = Addr a" "heap w a = Some ob" "alt ob"
    and pos: "0 \<le> pos" "pos < r_length v"
  shows "scope k (Assign pos x # ops) (v, with_failing_elt a w) = Some (Inl RError, with_failing_elt a w) \<and>
         protect_count (r_data v) (with_failing_elt a w) = 1 \<and>
         at k v pos (with_failing_elt a w) = Inl RError \<and>
         proxy_get (w_subscript v pos) (with_failing_elt a w) = Inl RError \<and>
         (\<exists>r w'. scope k (Assign pos x # ops) (v, w) = Some (r, w') \<and> preserved w' = [])"
proof -
  from inv have "handle_ok k v w" by (simp add: vec_inv_def)
  from this obtain c where "preserved w = [(c, Addr a)]"
    using alt(2) by (auto elim: handle_okE)
  then have pc: "protect_count (r_data v) (with_failing_elt a w) = 1"
    using alt(2) by (simp add: protect_count_def with_failing_elt_def)
  have f: "set_elt (r_data v) pos x (with_failing_elt a w) = Inl RError"
          "get_elt (r_data v) pos (with_failing_elt a w) = Inl RError"
    using alt by (simp_all add: set_elt_def get_elt_def elt_fails_def deref_def with_failing_elt_def)
  have "scope k (Assign pos x # ops) (v, with_failing_elt a w) = Some (Inl RError, with_failing_elt a w)"
    using f(1) alt(1) pos
    by (simp add: scope_def exec_op_def w_at_def w_subscript_def proxy_assign_def)
  moreover have "at k v pos (with_failing_elt a w) = Inl RError \<and>
                 proxy_get (w_subscript v pos) (with_failing_elt a w) = Inl RError"
    using f(2) alt(1) pos by (simp add: at_def proxy_get_def w_subscript_def)
  moreover have "\<exists>r w'. scope k (Assign pos x # ops) (v, w) = Some (r, w') \<and> preserved w' = []"
    using scope_releases [OF vec_inv_owns [OF inv]] by blast
  ultimately show ?thesis using pc by blast
qed

theorem elt_error_leaks_protection_witness:
  "scope doubles [Assign 1 0x4008000000000000] (altv, with_failing_elt 0 altw) =
     Some (Inl RError, with_failing_elt 0 altw) \<and>
   protect_count (Addr 0) (with_failing_elt 0 altw) = 1 \<and>
   (\<exists>r w'. scope doubles [Assign 1 0x4008000000000000] (altv, altw) = Some (r, w') \<and> preserved w' = [])"
proof -
  have "vec_inv doubles (altv, altw)" "r_is_altrep altv" "r_data altv = Addr 0"
    "heap altw 0 = Some \<lparr>otype = REALSXP, alt = True, elts = [0x3FF0000000000000, 0x4000000000000000],
                           names = None\<rparr>"
    "0 \<le> (1::int)" "1 < r_length altv"
    by (simp_all add: vec_inv_def handle_ok_def buf_len_def rt_wf_def altv_def altw_def doubles_def deref_def)
  from elt_error_leaks_protection [OF this(1-3) this(4) _ this(5,6), of "0x4008000000000000" "[]"]
  show ?thesis by (simp add: altv_def)
qed

end
