(* ===== verification/Spec2Isabelle.thy ===== *)
theory Spec2Isabelle
  imports Iterator Growth Refinement Typing Scope
begin

text \<open>
  \<^bold>\<open>cpp11 typed vectors: doubles and logicals.\<close>

  This development models the two specialisation headers of the cpp11 vector layer,
  src/inst/include/cpp11/doubles.hpp and src/inst/include/cpp11/logicals.hpp, over a
  model of the R runtime they call, and proves what makes them correct and where they
  are not.

  \<^medskip>\<^bold>\<open>The program.\<close> \<open>cpp11::vector<T>\<close> is a read-only view of an R vector:
  a handle \<open>data_\<close>, a flag \<open>is_altrep_\<close> fixed at construction, a raw pointer
  \<open>data_p_\<close> (null for an ALTREP vector) and \<open>length_\<close>.
  \<open>cpp11::writable::vector<T>\<close> adds \<open>capacity_\<close> and a preserve-list cell
  \<open>protect_\<close> that keeps \<open>data_\<close> alive across garbage collections. Each header
  specialises, for its element type: \<open>valid_type\<close>, \<open>operator[]\<close>, \<open>at\<close>,
  \<open>get_p\<close>, the iterator's \<open>fill_buf\<close>, the proxy returned by writable
  \<open>operator[]\<close> (assignment and conversion), the two literal-list constructors,
  \<open>reserve\<close> and \<open>push_back\<close>. The R runtime (allocation, resizing, element and
  region access, \<open>protect_sexp\<close>/\<open>release_protect\<close>, \<open>unwind_protect\<close>, the
  collector) and the generic parts in vector.hpp are outside src/ and are modelled from
  the specification.

  \<^medskip>\<^bold>\<open>Theories.\<close>
  \<^item> Prelude: handles (\<open>sexp\<close>), type tags, preserve-list tokens, the \<open>error\<close>
    type (\<open>type_error\<close>, \<open>out_of_range\<close>, \<open>unwind_exception\<close>, an unwrapped R
    error, undefined behaviour) and the state-and-exception type \<open>exn\<close>, in which
    side effects made before a throw persist, as in C++.
  \<^item> Runtime: the R heap as a record (objects by address, a preserve list of
    cells, free memory \<open>mem_avail\<close> as the allocation-failure model, a counter of
    region reads) and the C API: \<open>Rf_allocVector\<close>, \<open>Rf_xlengthgets\<close>, element
    get/set, \<open>DATAPTR\<close>, \<open>*_GET_REGION\<close>, \<open>protect_sexp\<close>, \<open>release_protect\<close>,
    \<open>unwind_protect\<close>/\<open>safe\<close>, and \<open>R_gc\<close>, which frees every object not
    reachable from the roots or the preserve list. The sets \<open>region_errors\<close> and
    \<open>elt_errors\<close> mark the ALTREP objects whose region method, respectively element
    methods (\<open>Elt\<close>, \<open>Set_elt\<close>), raise an R error; \<open>get_elt\<close>/\<open>set_elt\<close>
    (\<open>REAL_ELT\<close>, \<open>SET_REAL_ELT\<close>) go through those methods for an ALTREP object,
    while a raw pointer reads and writes the buffer (\<open>buf_get\<close>/\<open>buf_set\<close>).
  \<^item> Vector: the template body shared by both headers, parameterised by a
    \<open>kind\<close> (SEXPTYPE, the \<open>out_of_range\<close> message, the NA value). The records
    \<open>rvector\<close>/\<open>wvector\<close> are the C++ objects; \<open>valid_type\<close>, \<open>get_p\<close>,
    \<open>subscript\<close> (\<open>operator[]\<close>), \<open>at\<close>, \<open>proxy_assign\<close>, \<open>proxy_get\<close>,
    \<open>il_ctor\<close>, \<open>named_ctor\<close> (with \<open>named_body\<close>, \<open>named_fill\<close>),
    \<open>reserve\<close>, \<open>grow\<close> (the \<open>while\<close> loop of \<open>push_back\<close>) and
    \<open>push_back\<close> translate doubles.hpp line by line; \<open>doubles\<close> is the
    \<open>REALSXP\<close> kind. The invariant \<open>vec_inv\<close> (live handle of the right type,
    exactly the vector's cell in the preserve list, \<open>data_p_\<close> addressing the
    buffer when materialised, \<open>0 \<le> length_ \<le> capacity_ = Rf_xlength(data_)\<close>,
    and the element methods of an ALTREP handle answer, \<open>elt_ok\<close>)
    and the abstraction \<open>contents\<close> (the first \<open>length_\<close> elements) carry the
    proofs.
  \<^item> Lifecycle: a vector's life as an inductive step relation over client calls
    (\<open>push_back\<close>, growing \<open>reserve\<close>, proxy assignment, collection) and its
    reachable states; the invariant holds in all of them (rule induction). The
    destructor \<open>vector_dtor\<close> (from the specification) releases \<open>protect_\<close>.
  \<^item> Constructors: the literal-list and named-argument constructors of doubles,
    with the named-constructor lemma shared by both kinds.
  \<^item> Typing: the type discipline of \<open>valid_type\<close> and the read-only constructor.
  \<^item> Logicals: the \<open>LGLSXP\<close> kind with \<open>NA_LOGICAL\<close>, the tri-state encoding
    \<open>lgl_encode\<close>/\<open>lgl_decode\<close>, every logicals.hpp specialisation as the template
    at that kind where the body is the same, the reads \<open>operator[]\<close>, \<open>at\<close> and the
    proxy conversion with their \<open>static_cast<Rboolean>\<close> (\<open>Rboolean_cast\<close>,
    \<open>lgl_elt\<close>), and the literal-list constructor, whose body differs (own allocation,
    own \<open>protect_sexp\<close>, a \<open>SET_LOGICAL_ELT\<close> loop).
  \<^item> Iterator: the block iterator with both \<open>fill_buf\<close> specialisations; the
    iterator state, \<open>operator*\<close> with its 64-element window and the range loop are
    from the specification (vector.hpp).
  \<^item> Growth: sequences of \<open>push_back\<close> (the client loop of the specification's
    1000-push test), the memory each growth step consumes, and the amortised bound of
    the doubling policy.
  \<^item> Refinement: the abstract list specification of a writable vector and the proof
    that every run of the lifecycle step relation refines it through \<open>contents\<close>.
  \<^item> Scope: a C++ block owning a writable vector, run as a sequence of client calls
    (\<open>exec_op\<close>, \<open>run_ops\<close>) whose exit (\<open>scope\<close>) runs \<open>~vector\<close> on a
    return and on a C++ exception but not on R's longjmp; the ownership invariant
    \<open>owns\<close> that every call keeps whatever its arguments.
  \<^item> This theory: the header, and the properties spanning the lifecycle, the
    refinement and the iterator (a pass after any run from any valid vector returns the
    abstract list) and bounding the capacity along a run.

  \<^medskip>\<^bold>\<open>What is proved.\<close> Functional behaviour of every operation on every branch
  (reads in and out of range, proxy writes, growth, both constructors, the
  \<open>type_error\<close> path); preservation of \<open>vec_inv\<close> by every operation and in every
  reachable state, hence exactly one protected handle after each call; termination of
  the growth loop (\<open>push_back\<close> returns whenever \<open>0 \<le> length_ \<le> capacity_\<close>;
  proved by a measure on \<open>length_ + 1 - capacity_\<close>, since the loop is a
  \<open>partial_function (option)\<close>, whose \<open>None\<close> is non-termination); strong
  exception safety of \<open>reserve\<close>; survival of reads across a collection (the
  lemma \<open>vec_inv_gc\<close>); round trips of the three logical states through a
  materialised vector; equivalence of block iteration with
  \<open>operator[]\<close> and its exact cost of \<open>\<lceil>n/64\<rceil>\<close> region reads; success of any
  sequence of pushes given four elements of memory per element, with capacity below
  \<open>2n\<close> and \<open>2 * capacity - 1\<close> elements allocated; refinement of the list
  specification by every run; absence of wrap-around in the capacity doubling; the
  read-only constructor accepts exactly its own \<open>SEXPTYPE\<close>; \<open>reserve\<close> with a
  negative capacity throws and changes nothing; growth relocates the data and leaves
  earlier proxies pointing at freed memory; every state of an iterator pass satisfies the
  window invariant of the specification; a vector created empty never becomes ALTREP (fixpoint
  induction over the growth loop); and every block owning a vector, whatever calls it
  makes and whichever C++ exception ends it, returns and releases all protection, unless
  an ALTREP element method fails.

  \<^medskip>\<^bold>\<open>Findings\<close> (each a theorem): \<open>push_back\<close> doubles \<open>capacity_\<close> before
  calling \<open>reserve\<close>, so a failed allocation leaves the vector claiming a capacity its
  buffer does not have; \<open>reserve\<close> below \<open>length_\<close> keeps \<open>length_\<close>;
  \<open>reserve\<close> never updates \<open>is_altrep_\<close>; the named constructor leaks its
  protection on \<open>type_error\<close> and reads an empty argument out of bounds, after any
  prefix of good arguments; the logicals literal constructor lets an allocation error
  longjmp unwrapped where the doubles one throws; the logicals ALTREP reads cast
  \<open>NA_LOGICAL\<close> to \<open>Rboolean\<close>, which is undefined, so NA does not survive them;
  the logicals \<open>fill_buf\<close> likewise
  lets a failing ALTREP region read longjmp where the doubles one throws
  \<open>unwind_exception\<close>; and the element accessors of both headers call the ALTREP
  element methods unprotected (NOPROTECT), so a failing method longjmps past the owning
  vector's destructor and leaks its protection.

  \<^medskip>\<^bold>\<open>Bounds and choices.\<close> \<open>R_xlen_t\<close> is \<open>int\<close>; the one place where its
  64-bit width matters, \<open>capacity_ *= 2\<close>, is shown not to wrap: capacity plus free
  memory never grows along a run, so a runtime with at most \<open>R_XLEN_T_MAX\<close> elements
  of memory keeps \<open>capacity_ \<le> 2^52\<close> and the doubled value is read back unchanged
  by \<open>sint\<close> at \<open>64 word\<close>. Doubles and logicals are stored as \<open>64 word\<close> and
  \<open>32 word\<close> bit patterns; the layer only copies them. Memory is a count of
  elements that can still be allocated; the bound \<open>4 * (length + n) - 2 * capacity\<close>
  is what the doubling policy needs to push \<open>n\<close> more values (it is exact for a
  run of doublings from an empty vector up to a constant). The iterator window is the
  source's 64. No fuel is used: the only unbounded loop, \<open>grow\<close>, is a partial
  function with a termination proof.

  \<^medskip>\<^bold>\<open>Not modelled.\<close> The rest of the generic vector.hpp (copy and move,
  \<open>names()\<close>, conversions; its read-only constructor, writable \<open>operator[]\<close>,
  destructor and iterator are modelled from the specification), \<open>as_sexp\<close> beyond
  allocation and fill, and the include and namespace lines of both headers; strings
  and encodings (\<open>Rf_mkCharCE\<close> is a plain name store); the names attribute beyond
  an inline list; \<open>protect_sexp\<close> failing; the collector returning memory;
  concurrency (the source is single-threaded). A logical element is kept as its
  32-bit integer. The \<open>static_cast<Rboolean>\<close> that logicals.hpp applies to
  \<open>LOGICAL_ELT\<close> is modelled by \<open>Rboolean_cast\<close>: undefined outside 0 and 1, as
  C++17 makes it for an enumeration without a fixed underlying type. The read through
  \<open>data_p_\<close>, a \<open>reinterpret_cast<Rboolean*>\<close> of the integer buffer, is kept as the
  stored word, as common compilers do. Whether the read-only base constructor of
  vector.hpp registers a protection is not settled by the sources under src/; the model
  follows the specification (it does not), and no property rests on it.

  \<^medskip>\<^bold>\<open>Further work.\<close> Invalidation of
  every pointer held across \<open>reserve\<close> in general (one relocation is a theorem of
  Growth); and the lifecycle and refinement instantiated at
  the logical kind with their own witnesses.
\<close>

text \<open>C25: After any run of client calls and collections from any valid doubles vector,
  ALTREP or materialised, a pass of the block iterator returns the abstract list of the
  specification (the run applied to the initial contents), and costs \<open>\<lceil>length / 64\<rceil>\<close>
  region reads if the vector was built over an ALTREP object, whose flag every call keeps,
  and none otherwise: the lifecycle, the refinement and the iterator agree.\<close>

theorem run_then_iterate:
  assumes inv: "vec_inv doubles (v, w)" and r: "runs doubles (v, w) ops (v', w')"
    and rg: "r_is_altrep v \<longrightarrow> \<not> region_fails (r_data v') w'"
  shows "iterate fill_buf (rvector.truncate v') w' =
    (Inr (fold abs_step ops (contents (v, w))),
     w'\<lparr>region_calls := region_calls w' + (if r_is_altrep v then (nat (r_length v') + 63) div 64 else 0)\<rparr>)"
proof -
  from runs_contents [OF r inv] have
    i: "vec_inv doubles (v', w')" and c: "contents (v', w') = fold abs_step ops (contents (v, w))" by auto
  have a: "r_is_altrep v' = r_is_altrep v" using runs_altrep [OF r] by simp
  with rg have "r_is_altrep v' \<longrightarrow> \<not> region_fails (r_data v') w'" by simp
  from iterate_contents [OF fill_buf_region i this] c a show ?thesis by simp
qed

theorem run_then_iterate_witness:
  "\<exists>v' w'. runs doubles (alt200_v, alt200_w) [Assign 0 0x4008000000000000] (v', w') \<and>
     iterate fill_buf (rvector.truncate v') w' =
       (Inr ((replicate 200 NA_REAL)[0 := 0x4008000000000000]), w'\<lparr>region_calls := region_calls w' + 4\<rparr>)"
proof -
  let ?w' = "put_obj (Addr 0) \<lparr>otype = REALSXP, alt = True,
               elts = (replicate 200 NA_REAL)[0 := 0x4008000000000000], names = None\<rparr> alt200_w"
  have "vstep doubles (alt200_v, alt200_w) (Assign 0 0x4008000000000000) (alt200_v, ?w')"
    by (rule vstep.assign [where px = "w_subscript alt200_v 0"])
       (simp_all add: put_obj_def w_at_def w_subscript_def proxy_assign_def set_elt_def buf_set_def elt_fails_def
                      deref_def alt200_v_def alt200_w_def)
  then have r: "runs doubles (alt200_v, alt200_w) [Assign 0 0x4008000000000000] (alt200_v, ?w')"
    by (rule runs.cons) (rule runs.nil)
  have inv: "vec_inv doubles (alt200_v, alt200_w)"
    by (simp add: vec_inv_def handle_ok_def buf_len_def rt_wf_def alt200_v_def alt200_w_def
                  doubles_def deref_def)
  have rg: "r_is_altrep alt200_v \<longrightarrow> \<not> region_fails (r_data alt200_v) ?w'"
    by (simp add: region_fails_def alt200_v_def alt200_w_def put_obj_def)
  from run_then_iterate [OF inv r rg] r show ?thesis
    by (auto simp: contents_def deref_def alt200_v_def alt200_w_def)
qed

text \<open>C26: Along any run from the empty vector over a runtime whose memory does not exceed
  R's largest vector length, \<open>capacity_\<close> stays between 0 and \<open>R_XLEN_T_MAX\<close>, so
  the \<open>capacity_ *= 2\<close> of the next \<open>push_back\<close> is computed without wrap-around in the
  64-bit signed \<open>R_xlen_t\<close>.\<close>

theorem capacity_doubling_no_overflow:
  assumes "rt_wf w" "preserved w = []" "int (mem_avail w) \<le> R_XLEN_T_MAX"
    and r: "runs k (empty_wvector, w) ops (v', w')"
  shows "0 \<le> w_capacity v' \<and> w_capacity v' \<le> R_XLEN_T_MAX \<and>
         sint (word_of_int (w_capacity v' * 2) :: 64 word) = w_capacity v' * 2"
proof -
  note i0 = vec_inv_empty [OF assms(1,2), of k]
  from runs_cap_mem [OF r i0] have "w_capacity v' \<le> int (mem_avail w)"
    by (simp add: empty_wvector_def)
  moreover from runs_contents [OF r i0] have "0 \<le> w_capacity v'" by (simp add: vec_inv_def)
  ultimately have b: "0 \<le> w_capacity v'" "w_capacity v' \<le> R_XLEN_T_MAX"
    "- (2 ^ 63) \<le> w_capacity v' * 2" "w_capacity v' * 2 < 2 ^ 63"
    using assms(3) by (simp_all add: R_XLEN_T_MAX_def)
  have "sint (word_of_int (w_capacity v' * 2) :: 64 word) = w_capacity v' * 2"
    by (simp only: sint_sbintrunc') (rule signed_take_bit_int_eq_self, use b(3,4) in simp_all)
  with b show ?thesis by simp
qed

theorem capacity_doubling_no_overflow_witness:
  "\<exists>v' w'. runs doubles (empty_wvector, w_init) ex_ops (v', w') \<and> 0 \<le> w_capacity v' \<and>
     w_capacity v' \<le> R_XLEN_T_MAX \<and> sint (word_of_int (w_capacity v' * 2) :: 64 word) = w_capacity v' * 2"
proof -
  from ex_run obtain v' w' where r: "runs doubles (empty_wvector, w_init) ex_ops (v', w')" by auto
  have "rt_wf w_init" "preserved w_init = []" "int (mem_avail w_init) \<le> R_XLEN_T_MAX"
    by (simp_all add: rt_wf_def w_init_def R_XLEN_T_MAX_def)
  from capacity_doubling_no_overflow [OF this r] r show ?thesis by blast
qed

end
